theory Spec2Isabelle
  imports Main "HOL-Library.Multiset"
begin

section \<open>Python built-ins used by \<open>CSV_XML.run\<close>\<close>

text \<open>
  A string is text in UTF-8: a character is one byte below 128, or a lead byte with the
  continuation bytes that follow it. The classes of ASCII characters are written out
  below; for the other characters the tables of the Unicode database are taken from
  the environment (see \<open>env\<close>).
\<close>

abbreviation DQ :: char where "DQ \<equiv> CHR 0x22"
abbreviation SQ :: char where "SQ \<equiv> CHR 0x27"
abbreviation LF :: char where "LF \<equiv> CHR 0x0A"
abbreviation CR :: char where "CR \<equiv> CHR 0x0D"
abbreviation TAB :: char where "TAB \<equiv> CHR 0x09"
abbreviation BSL :: char where "BSL \<equiv> CHR 0x5C"

definition is_ascii :: "char \<Rightarrow> bool" where
  "is_ascii c = ((of_char c :: nat) < 128)"

definition is_cont :: "char \<Rightarrow> bool" where
  "is_cont c = (128 \<le> (of_char c :: nat) \<and> (of_char c :: nat) < 192)"

text \<open>The characters of a string, each as its bytes.\<close>

function chars :: "string \<Rightarrow> string list" where
  "chars [] = []"
| "chars (c # cs) = (c # takeWhile is_cont cs) # chars (dropWhile is_cont cs)"
  by pat_completeness auto
termination
  by (relation "measure length") (auto simp: length_dropWhile_le less_Suc_eq_le)

text \<open>The code point of a character.\<close>

definition code_point :: "string \<Rightarrow> nat" where
  "code_point ch =
     (case ch of
        [] \<Rightarrow> 0
      | c # rest \<Rightarrow>
          foldl (\<lambda>acc b. acc * 64 + ((of_char b :: nat) - 128))
            (let n = (of_char c :: nat)
             in if n < 128 then n else if n < 224 then n - 192 else if n < 240 then n - 224 else n - 240)
            rest)"

text \<open>\<open>sep.join(xs)\<close>\<close>

fun str_join :: "string \<Rightarrow> string list \<Rightarrow> string" where
  "str_join sep [] = []"
| "str_join sep [x] = x"
| "str_join sep (x # y # ys) = x @ sep @ str_join sep (y # ys)"

text \<open>\<open>s.replace(old, new)\<close>: leftmost, non-overlapping occurrences; an empty \<open>old\<close>
  matches before every character and at the end.\<close>

fun str_replace :: "string \<Rightarrow> string \<Rightarrow> string \<Rightarrow> string" where
  "str_replace old new [] = (if old = [] then new else [])"
| "str_replace old new (c # cs) =
     (if old = [] then new @ c # str_replace old new cs
      else if take (length old) (c # cs) = old
        then new @ str_replace old new (drop (length old) (c # cs))
      else c # str_replace old new cs)"

text \<open>\<open>s.rpartition(c)[2]\<close>: what follows the last \<open>c\<close>, the whole string when there is none.\<close>

definition rpartition_tail :: "char \<Rightarrow> string \<Rightarrow> string" where
  "rpartition_tail c s = rev (takeWhile (\<lambda>x. x \<noteq> c) (rev s))"

definition is_upper :: "char \<Rightarrow> bool" where
  "is_upper c = (let n = (of_char c :: nat) in 65 \<le> n \<and> n \<le> 90)"

definition is_lower :: "char \<Rightarrow> bool" where
  "is_lower c = (let n = (of_char c :: nat) in 97 \<le> n \<and> n \<le> 122)"

definition is_digit :: "char \<Rightarrow> bool" where
  "is_digit c = (let n = (of_char c :: nat) in 48 \<le> n \<and> n \<le> 57)"

text \<open>The ASCII characters of the class \<open>\w\<close> of \<open>re\<close>.\<close>

definition is_word :: "char \<Rightarrow> bool" where
  "is_word c = (is_upper c \<or> is_lower c \<or> is_digit c \<or> c = CHR ''_'')"

definition lower_char :: "char \<Rightarrow> char" where
  "lower_char c = (if is_upper c then char_of ((of_char c :: nat) + 32) else c)"

definition digit_char :: "nat \<Rightarrow> char" where
  "digit_char d = char_of (48 + d)"

fun str_of_nat :: "nat \<Rightarrow> string" where
  "str_of_nat n = (if n < 10 then [digit_char n] else str_of_nat (n div 10) @ [digit_char (n mod 10)])"

declare str_of_nat.simps [simp del]

definition str_of_int :: "int \<Rightarrow> string" where
  "str_of_int i = (if i < 0 then CHR ''-'' # str_of_nat (nat (- i)) else str_of_nat (nat i))"

definition hex_char :: "nat \<Rightarrow> char" where
  "hex_char d = (if d < 10 then char_of (48 + d) else char_of (87 + d))"

text \<open>The last \<open>k\<close> hexadecimal digits of a number.\<close>

fun hex_digits :: "nat \<Rightarrow> nat \<Rightarrow> string" where
  "hex_digits 0 n = []"
| "hex_digits (Suc k) n = hex_digits k (n div 16) @ [hex_char (n mod 16)]"

text \<open>The escape \<open>repr\<close> writes for a character that is not printable.\<close>

definition repr_escape :: "nat \<Rightarrow> string" where
  "repr_escape n =
     (if n < 256 then [BSL, CHR ''x''] @ hex_digits 2 n
      else if n < 65536 then [BSL, CHR ''u''] @ hex_digits 4 n
      else [BSL, CHR ''U''] @ hex_digits 8 n)"

definition repr_quote :: "string \<Rightarrow> char" where
  "repr_quote s = (if SQ \<in> set s \<and> DQ \<notin> set s then DQ else SQ)"

text \<open>
  \<open>f'{n/2:.2g}'\<close> for an integer \<open>n\<close>: the quotient rounded to two significant digits
  (ties to even), in fixed notation while the decimal exponent is below 2 and in
  scientific notation from there on, trailing zeros and a bare decimal point removed.
  The function works on the exact quotient, which is what the float holds for every
  \<open>n\<close> of magnitude below \<open>2 ^ 53\<close>.
\<close>

fun dec_exp :: "nat \<Rightarrow> nat" where
  "dec_exp n = (if n < 10 then 0 else Suc (dec_exp (n div 10)))"

declare dec_exp.simps [simp del]

definition round_half_even :: "nat \<Rightarrow> nat \<Rightarrow> nat" where
  "round_half_even n d =
     (let q = n div d; r = n mod d
      in if 2 * r > d \<or> (2 * r = d \<and> odd q) then q + 1 else q)"

definition exp_digits :: "nat \<Rightarrow> string" where
  "exp_digits e = (if e < 10 then CHR ''0'' # str_of_nat e else str_of_nat e)"

definition half_2g_pos :: "nat \<Rightarrow> string" where
  "half_2g_pos n =
     (if n = 0 then ''0''
      else if n = 1 then ''0.5''
      else
        let e0 = dec_exp (n div 2);
            m0 = (if e0 = 0 then 5 * n else round_half_even n (2 * 10 ^ (e0 - 1)));
            e = (if m0 = 100 then e0 + 1 else e0);
            m = (if m0 = 100 then 10 else m0);
            d1 = digit_char (m div 10);
            d2 = digit_char (m mod 10)
        in if e = 0 then (if m mod 10 = 0 then [d1] else [d1, CHR ''.'', d2])
           else if e = 1 then [d1, d2]
           else (if m mod 10 = 0 then [d1] else [d1, CHR ''.'', d2]) @ ''e+'' @ exp_digits e)"

definition half_2g :: "int \<Rightarrow> string" where
  "half_2g n = (if n < 0 then CHR ''-'' # half_2g_pos (nat (- n)) else half_2g_pos (nat n))"


section \<open>Data model\<close>

text \<open>
  A datetime is opaque to the generator: it is only handed to \<open>isoformat\<close> or
  \<open>str\<close>.
\<close>

datatype datetime = Datetime int

text \<open>
  The values a record holds. Lists and tuples (authors, tags, formats, multi-valued
  custom columns) hold strings.
\<close>

datatype pyval =
    PNone
  | PBool bool
  | PInt int
  | PStr string
  | PList "string list"
  | PTuple "string list"
  | PDate datetime

text \<open>
  The exceptions of the run. \<open>KeyError k\<close> carries the missing key as \<open>str\<close> prints
  it, \<open>BuilderError\<close> is what \<open>lxml.builder\<close> raises for a text or an attribute that
  is not a string, \<open>External\<close> is for the helpers of the environment, and
  \<open>ConvertFailed t e\<close> is the exception the XML branch raises from \<open>e\<close> for the record
  titled \<open>t\<close>.
\<close>

datatype error =
    KeyError string
  | TypeError
  | AttributeError
  | BuilderError
  | External string
  | ConvertFailed string error

type_synonym entry = "string \<rightharpoonup> pyval"

text \<open>An entry of \<open>db.field_metadata\<close>: its \<open>datatype\<close> and \<open>display['is_names']\<close>.\<close>

record fmeta =
  fm_datatype :: "string option"
  display_is_names :: bool

definition empty_meta :: fmeta where
  "empty_meta = \<lparr>fm_datatype = None, display_is_names = False\<rparr>"

text \<open>The element tree that \<open>lxml.builder.E\<close> builds: tag, attributes, text, children.
  An element without text has the empty text. The checks of \<open>lxml\<close> on the characters
  of names and texts are not modelled.\<close>

datatype xml =
  Elem (elem_tag: string) (elem_attrs: "(string \<times> string) list") (elem_text: string) (elem_children: "xml list")

text \<open>
  What \<open>run\<close> imports or is handed and this file does not hold: the helpers of calibre
  and of the platform, each of which may raise, and the tables of the Unicode database
  for the characters outside ASCII: whether a character is of the class \<open>\w\<close>, whether it
  is of the class \<open>\d\<close>, whether \<open>repr\<close> prints it as it is, and \<open>lower()\<close> of a string
  that has such characters.
\<close>

record env =
  authors_to_string :: "pyval \<Rightarrow> error + string"
  isoformat :: "pyval \<Rightarrow> error + string"
  html2text :: "string \<Rightarrow> error + string"
  str_datetime :: "datetime \<Rightarrow> string"
  current_library_name :: string
  basename :: "string \<Rightarrow> string"
  os_sep :: string
  tostring :: "xml \<Rightarrow> string"
  unicode_word :: "string \<Rightarrow> bool"
  unicode_decimal :: "string \<Rightarrow> bool"
  unicode_printable :: "string \<Rightarrow> bool"
  unicode_lower :: "string \<Rightarrow> string"

record db =
  get_field :: "pyval \<Rightarrow> string \<Rightarrow> error + pyval"
  field_metadata :: "string \<rightharpoonup> fmeta"
  catalog_plugin_on_device_temp_mapping :: "pyval \<rightharpoonup> entry"

record opts =
  library_path :: "string option"
  catalog_title :: "string option"
  is_device_connected :: bool

text \<open>The file system: the content of each path that exists.\<close>

type_synonym fs = "string \<rightharpoonup> string"

section \<open>Character classes, \<open>lower\<close> and \<open>repr\<close>\<close>

text \<open>The class \<open>\w\<close> of a \<open>str\<close> pattern, on a character.\<close>

definition word_char :: "env \<Rightarrow> string \<Rightarrow> bool" where
  "word_char e ch =
     (case ch of
        [] \<Rightarrow> False
      | c # rest \<Rightarrow> if is_ascii c then rest = [] \<and> is_word c else unicode_word e ch)"

text \<open>The class \<open>\d\<close> of a \<open>str\<close> pattern, on a character.\<close>

definition decimal_char :: "env \<Rightarrow> string \<Rightarrow> bool" where
  "decimal_char e ch =
     (case ch of
        [] \<Rightarrow> False
      | c # rest \<Rightarrow> if is_ascii c then rest = [] \<and> is_digit c else unicode_decimal e ch)"

text \<open>\<open>s.lower()\<close>\<close>

definition str_lower :: "env \<Rightarrow> string \<Rightarrow> string" where
  "str_lower e s = (if list_all is_ascii s then map lower_char s else unicode_lower e s)"

text \<open>\<open>repr(s)\<close> of a string: double quotes when the string has a single quote and no
  double quote, single quotes otherwise; backslash, the chosen quote and the
  characters that are not printable are escaped.\<close>

definition repr_char :: "env \<Rightarrow> char \<Rightarrow> string \<Rightarrow> string" where
  "repr_char e q ch =
     (if ch = [BSL] then [BSL, BSL]
      else if ch = [q] then [BSL, q]
      else if ch = [LF] then [BSL, CHR ''n'']
      else if ch = [CR] then [BSL, CHR ''r'']
      else if ch = [TAB] then [BSL, CHR ''t'']
      else if (case ch of
                 [] \<Rightarrow> True
               | c # rest \<Rightarrow> if is_ascii c then 32 \<le> (of_char c :: nat) \<and> (of_char c :: nat) < 127
                           else unicode_printable e ch)
        then ch
      else repr_escape (code_point ch))"

definition repr_str :: "env \<Rightarrow> string \<Rightarrow> string" where
  "repr_str e s = (let q = repr_quote s in q # concat (map (repr_char e q) (chars s)) @ [q])"

section \<open>Values: truth, iteration, \<open>str\<close>\<close>

fun truthy :: "pyval \<Rightarrow> bool" where
  "truthy PNone = False"
| "truthy (PBool b) = b"
| "truthy (PInt n) = (n \<noteq> 0)"
| "truthy (PStr s) = (s \<noteq> [])"
| "truthy (PList xs) = (xs \<noteq> [])"
| "truthy (PTuple xs) = (xs \<noteq> [])"
| "truthy (PDate d) = True"

text \<open>\<open>for x in v\<close>: a list or a tuple gives its items, a string its characters,
  anything else is not iterable.\<close>

fun py_iter :: "pyval \<Rightarrow> error + string list" where
  "py_iter (PList xs) = Inr xs"
| "py_iter (PTuple xs) = Inr xs"
| "py_iter (PStr s) = Inr (chars s)"
| "py_iter v = Inl TypeError"

fun py_str :: "env \<Rightarrow> pyval \<Rightarrow> string" where
  "py_str e PNone = ''None''"
| "py_str e (PBool b) = (if b then ''True'' else ''False'')"
| "py_str e (PInt n) = str_of_int n"
| "py_str e (PStr s) = s"
| "py_str e (PList xs) = ''['' @ str_join '', '' (map (repr_str e) xs) @ '']''"
| "py_str e (PTuple xs) =
     ''('' @ str_join '', '' (map (repr_str e) xs) @ (if length xs = 1 then '','' else []) @ '')''"
| "py_str e (PDate d) = str_datetime e d"

text \<open>\<open>f'{v/2:.2g}'\<close>: division is defined on integers and booleans only.\<close>

fun rating_2g :: "pyval \<Rightarrow> error + string" where
  "rating_2g (PInt n) = Inr (half_2g n)"
| "rating_2g (PBool b) = Inr (half_2g (if b then 1 else 0))"
| "rating_2g v = Inl TypeError"

definition lookup :: "entry \<Rightarrow> string \<Rightarrow> error + pyval" where
  "lookup r k = (case r k of None \<Rightarrow> Inl (KeyError k) | Some v \<Rightarrow> Inr v)"

text \<open>\<open>fm = {x: db.field_metadata.get(x, {}) for x in fields}\<close>, read as
  \<open>fm.get(field, {})\<close>. The field list \<open>fields\<close> of the source is \<open>flds\<close> throughout.\<close>

definition fm :: "db \<Rightarrow> string list \<Rightarrow> string \<Rightarrow> fmeta" where
  "fm d flds field =
     (if field \<in> set flds
      then (case field_metadata d field of None \<Rightarrow> empty_meta | Some m \<Rightarrow> m)
      else empty_meta)"

definition is_custom :: "string \<Rightarrow> bool" where
  "is_custom field = (case field of [] \<Rightarrow> False | c # _ \<Rightarrow> c = CHR ''#'')"

section \<open>The CSV branch\<close>

text \<open>Lines 121-133: the raw item of a field.\<close>

definition resolve :: "db \<Rightarrow> string list \<Rightarrow> string \<Rightarrow> entry \<Rightarrow> string \<Rightarrow> error + pyval" where
  "resolve d flds current_library r field =
     (if is_custom field then
        (case lookup r ''id'' of
           Inl x \<Rightarrow> Inl x
         | Inr i \<Rightarrow>
            (case get_field d i field of
               Inl x \<Rightarrow> Inl x
             | Inr (PList xs) \<Rightarrow>
                 Inr (PStr (str_join (if display_is_names (fm d flds field) then '' & '' else '', '') xs))
             | Inr (PTuple xs) \<Rightarrow>
                 Inr (PStr (str_join (if display_is_names (fm d flds field) then '' & '' else '', '') xs))
             | Inr item \<Rightarrow> Inr item))
      else if field = ''library_name'' then Inr (PStr current_library)
      else if field = ''title_sort'' then lookup r ''sort''
      else lookup r field)"

text \<open>Line 149: the characters that \<open>re.sub(r'[^\dX-]', '', item)\<close> keeps.\<close>

definition isbn_char :: "env \<Rightarrow> string \<Rightarrow> bool" where
  "isbn_char e ch = (decimal_char e ch \<or> ch = ''X'' \<or> ch = ''-'')"

text \<open>Lines 138-156: the per-field rules, for an item that is not \<open>None\<close>. A value
  without a \<open>replace\<close> method raises \<open>AttributeError\<close>; a datetime has one, which rejects
  string arguments.\<close>

definition normalize :: "env \<Rightarrow> db \<Rightarrow> string list \<Rightarrow> string \<Rightarrow> pyval \<Rightarrow> error + pyval" where
  "normalize e d flds field item =
     (if field = ''formats'' then
        (case py_iter item of
           Inl x \<Rightarrow> Inl x
         | Inr fs \<Rightarrow> Inr (PStr (str_join '', '' (map (\<lambda>f. str_lower e (rpartition_tail CHR ''.'' f)) fs))))
      else if field = ''authors'' then
        (case authors_to_string e item of Inl x \<Rightarrow> Inl x | Inr s \<Rightarrow> Inr (PStr s))
      else if field = ''tags'' then
        (case py_iter item of Inl x \<Rightarrow> Inl x | Inr ts \<Rightarrow> Inr (PStr (str_join '', '' ts)))
      else if field = ''isbn'' then
        (case item of
           PStr s \<Rightarrow> Inr (PStr (concat (filter (isbn_char e) (chars s))))
         | _ \<Rightarrow> Inl TypeError)
      else if fm_datatype (fm d flds field) = Some ''datetime'' then
        (case isoformat e item of Inl x \<Rightarrow> Inl x | Inr s \<Rightarrow> Inr (PStr s))
      else if field = ''comments'' then
        (case item of
           PStr s \<Rightarrow> Inr (PStr (str_replace [LF] '' '' (str_replace [CR, LF] '' '' s)))
         | PDate dt \<Rightarrow> Inl TypeError
         | _ \<Rightarrow> Inl AttributeError)
      else if fm_datatype (fm d flds field) = Some ''rating'' \<and> truthy item then
        (case rating_2g item of Inl x \<Rightarrow> Inl x | Inr s \<Rightarrow> Inr (PStr s))
      else Inr item)"

text \<open>Line 160, \<open>re.search(r'<(\w+)( |>)', item)\<close>, on the characters of the item: the
  name of the leftmost opening tag, as its characters.\<close>

fun opening_tag_in :: "env \<Rightarrow> string list \<Rightarrow> string list option" where
  "opening_tag_in e [] = None"
| "opening_tag_in e (ch # chs) =
     (if ch = ''<'' \<and> takeWhile (word_char e) chs \<noteq> [] \<and>
         (case dropWhile (word_char e) chs of [] \<Rightarrow> False | x # _ \<Rightarrow> x = '' '' \<or> x = ''>'')
      then Some (takeWhile (word_char e) chs)
      else opening_tag_in e chs)"

definition opening_tag :: "env \<Rightarrow> string \<Rightarrow> string option" where
  "opening_tag e s = map_option concat (opening_tag_in e (chars s))"

definition ends_with :: "string \<Rightarrow> string \<Rightarrow> bool" where
  "ends_with s suf = (length suf \<le> length s \<and> drop (length s - length suf) s = suf)"

text \<open>Line 162, \<open>re.search(rf'</{name}>$', item)\<close>: \<open>$\<close> matches at the end and before a
  final newline.\<close>

definition closing_tag :: "string \<Rightarrow> string \<Rightarrow> bool" where
  "closing_tag name s =
     (ends_with s (''</'' @ name @ ''>'') \<or> ends_with s (''</'' @ name @ ''>'' @ [LF]))"

definition looks_like_html :: "env \<Rightarrow> string \<Rightarrow> bool" where
  "looks_like_html e s = (case opening_tag e s of None \<Rightarrow> False | Some name \<Rightarrow> closing_tag name s)"

text \<open>Lines 159-164.\<close>

definition html_to_text :: "env \<Rightarrow> pyval \<Rightarrow> error + pyval" where
  "html_to_text e item =
     (case item of
        PStr s \<Rightarrow>
          (if looks_like_html e s
           then (case html2text e s of Inl x \<Rightarrow> Inl x | Inr t \<Rightarrow> Inr (PStr t))
           else Inr item)
      | _ \<Rightarrow> Inr item)"

text \<open>Line 166.\<close>

definition quote_cell :: "string \<Rightarrow> string" where
  "quote_cell s = [DQ] @ str_replace [DQ] [DQ, DQ] s @ [DQ]"

text \<open>Lines 121-166: the cell of one field of one entry.\<close>

definition csv_cell :: "env \<Rightarrow> db \<Rightarrow> string list \<Rightarrow> string \<Rightarrow> entry \<Rightarrow> string \<Rightarrow> error + string" where
  "csv_cell e d flds current_library r field =
     (case resolve d flds current_library r field of
        Inl x \<Rightarrow> Inl x
      | Inr PNone \<Rightarrow> Inr [DQ, DQ]
      | Inr item \<Rightarrow>
         (case normalize e d flds field item of
            Inl x \<Rightarrow> Inl x
          | Inr item' \<Rightarrow>
             (case html_to_text e item' of
                Inl x \<Rightarrow> Inl x
              | Inr item'' \<Rightarrow> Inr (quote_cell (py_str e item'')))))"

text \<open>Lines 119-166: \<open>outstr\<close> after the loop over the field names \<open>fs\<close> (\<open>flds\<close> is the
  whole field list, which \<open>fm\<close> is built from).\<close>

fun csv_cells :: "env \<Rightarrow> db \<Rightarrow> string list \<Rightarrow> string \<Rightarrow> entry \<Rightarrow> string list \<Rightarrow> error + string list" where
  "csv_cells e d flds current_library r [] = Inr []"
| "csv_cells e d flds current_library r (f # fs) =
     (case csv_cell e d flds current_library r f of
        Inl x \<Rightarrow> Inl x
      | Inr c \<Rightarrow>
         (case csv_cells e d flds current_library r fs of
            Inl x \<Rightarrow> Inl x
          | Inr cs \<Rightarrow> Inr (c # cs)))"

text \<open>Lines 118-168: the loop over the entries, writing one line per entry to the
  open file, whose content so far is \<open>out\<close>. An exception leaves what was written.\<close>

fun csv_entries :: "env \<Rightarrow> db \<Rightarrow> string list \<Rightarrow> string \<Rightarrow> entry list \<Rightarrow> string \<Rightarrow> (error + unit) \<times> string" where
  "csv_entries e d flds current_library [] out = (Inr (), out)"
| "csv_entries e d flds current_library (r # rs) out =
     (case csv_cells e d flds current_library r flds of
        Inl x \<Rightarrow> (Inl x, out)
      | Inr cells \<Rightarrow> csv_entries e d flds current_library rs (out @ str_join '','' cells @ [LF]))"

text \<open>The byte order mark \<open>U+FEFF\<close> as the \<open>utf8\<close> codec writes it.\<close>

definition BOM :: string where
  "BOM = [CHR 0xEF, CHR 0xBB, CHR 0xBF]"

text \<open>Lines 109-169.\<close>

definition run_csv :: "env \<Rightarrow> db \<Rightarrow> string list \<Rightarrow> string \<Rightarrow> entry list \<Rightarrow> string \<Rightarrow> fs \<Rightarrow> (error + unit) \<times> fs" where
  "run_csv e d flds current_library data path_to_output files =
     (case csv_entries e d flds current_library data (BOM @ str_join '','' flds @ [LF]) of
        (res, out) \<Rightarrow> (res, files(path_to_output \<mapsto> out)))"


section \<open>The XML branch\<close>

text \<open>The first error of a sequence of steps, or what they appended.\<close>

fun collect :: "(error + 'a list) list \<Rightarrow> error + 'a list" where
  "collect [] = Inr []"
| "collect (p # ps) =
     (case p of
        Inl x \<Rightarrow> Inl x
      | Inr xs \<Rightarrow> (case collect ps of Inl x \<Rightarrow> Inl x | Inr ys \<Rightarrow> Inr (xs @ ys)))"

text \<open>A text or attribute value handed to \<open>E\<close> is a string.\<close>

definition as_str :: "pyval \<Rightarrow> error + string" where
  "as_str v = (case v of PStr s \<Rightarrow> Inr s | _ \<Rightarrow> Inl BuilderError)"

text \<open>Lines 183-189: one element per custom field, in the order of the field list.\<close>

fun xml_custom :: "env \<Rightarrow> db \<Rightarrow> entry \<Rightarrow> string list \<Rightarrow> error + xml list" where
  "xml_custom e d r [] = Inr []"
| "xml_custom e d r (f # fs) =
     (if is_custom f then
        (case lookup r ''id'' of
           Inl x \<Rightarrow> Inl x
         | Inr i \<Rightarrow>
            (case get_field d i f of
               Inl x \<Rightarrow> Inl x
             | Inr val \<Rightarrow>
                (case xml_custom e d r fs of
                   Inl x \<Rightarrow> Inl x
                 | Inr rest \<Rightarrow> Inr (Elem (str_replace ''#'' ''_'' f) [] (py_str e val) [] # rest))))
      else xml_custom e d r fs)"

definition scalar_fields :: "string list" where
  "scalar_fields = [''id'', ''uuid'', ''publisher'', ''rating'', ''size'', ''isbn'', ''ondevice'', ''identifiers'']"

text \<open>Lines 193-203: the body of the loop over the fixed scalar fields.\<close>

definition xml_scalar :: "env \<Rightarrow> db \<Rightarrow> string list \<Rightarrow> entry \<Rightarrow> string \<Rightarrow> error + xml list" where
  "xml_scalar e d flds r field =
     (if field \<in> set flds then
        (case lookup r field of
           Inl x \<Rightarrow> Inl x
         | Inr val \<Rightarrow>
            (if \<not> truthy val then Inr []
             else
               (case val of
                  PStr s \<Rightarrow> Inr [Elem field [] s []]
                | _ \<Rightarrow>
                   (if fm_datatype (fm d flds field) = Some ''rating'' \<and> truthy val then
                      (case rating_2g val of
                         Inl x \<Rightarrow> Inl x
                       | Inr s \<Rightarrow> Inr [Elem field [] s []])
                    else Inr [Elem field [] (py_str e val) []]))))
      else Inr [])"

text \<open>Lines 205-207.\<close>

definition xml_title :: "string list \<Rightarrow> entry \<Rightarrow> error + xml list" where
  "xml_title flds r =
     (if ''title'' \<in> set flds then
        (case lookup r ''title'' of
           Inl x \<Rightarrow> Inl x
         | Inr t \<Rightarrow>
            (case lookup r ''sort'' of
               Inl x \<Rightarrow> Inl x
             | Inr so \<Rightarrow>
                (case as_str so of
                   Inl x \<Rightarrow> Inl x
                 | Inr so' \<Rightarrow>
                    (case as_str t of
                       Inl x \<Rightarrow> Inl x
                     | Inr t' \<Rightarrow> Inr [Elem ''title'' [(''sort'', so')] t' []]))))
      else Inr [])"

text \<open>Lines 209-213.\<close>

definition xml_authors :: "string list \<Rightarrow> entry \<Rightarrow> error + xml list" where
  "xml_authors flds r =
     (if ''authors'' \<in> set flds then
        (case lookup r ''author_sort'' of
           Inl x \<Rightarrow> Inl x
         | Inr so \<Rightarrow>
            (case as_str so of
               Inl x \<Rightarrow> Inl x
             | Inr so' \<Rightarrow>
                (case lookup r ''authors'' of
                   Inl x \<Rightarrow> Inl x
                 | Inr aus \<Rightarrow>
                    (case py_iter aus of
                       Inl x \<Rightarrow> Inl x
                     | Inr as \<Rightarrow>
                        Inr [Elem ''authors'' [(''sort'', so')] []
                               (map (\<lambda>au. Elem ''author'' [] au []) as)]))))
      else Inr [])"

text \<open>Lines 216-217: the body of the loop over \<open>timestamp\<close> and \<open>pubdate\<close>.\<close>

definition xml_date :: "env \<Rightarrow> string list \<Rightarrow> entry \<Rightarrow> string \<Rightarrow> error + xml list" where
  "xml_date e flds r field =
     (if field \<in> set flds then
        (case lookup r field of
           Inl x \<Rightarrow> Inl x
         | Inr v \<Rightarrow>
            (case isoformat e v of
               Inl x \<Rightarrow> Inl x
             | Inr s \<Rightarrow> Inr [Elem field [] s []]))
      else Inr [])"

text \<open>Lines 219-223.\<close>

definition xml_tags :: "string list \<Rightarrow> entry \<Rightarrow> error + xml list" where
  "xml_tags flds r =
     (if ''tags'' \<in> set flds then
        (case lookup r ''tags'' of
           Inl x \<Rightarrow> Inl x
         | Inr v \<Rightarrow>
            (if truthy v then
               (case py_iter v of
                  Inl x \<Rightarrow> Inl x
                | Inr ts \<Rightarrow> Inr [Elem ''tags'' [] [] (map (\<lambda>t. Elem ''tag'' [] t []) ts)])
             else Inr []))
      else Inr [])"

text \<open>Lines 225-226 and 232-233: \<open>comments\<close> and \<open>languages\<close>.\<close>

definition xml_text_field :: "string list \<Rightarrow> entry \<Rightarrow> string \<Rightarrow> error + xml list" where
  "xml_text_field flds r field =
     (if field \<in> set flds then
        (case lookup r field of
           Inl x \<Rightarrow> Inl x
         | Inr v \<Rightarrow>
            (if truthy v then
               (case as_str v of Inl x \<Rightarrow> Inl x | Inr s \<Rightarrow> Inr [Elem field [] s []])
             else Inr []))
      else Inr [])"

text \<open>Lines 228-230.\<close>

definition xml_series :: "env \<Rightarrow> string list \<Rightarrow> entry \<Rightarrow> error + xml list" where
  "xml_series e flds r =
     (if ''series'' \<in> set flds then
        (case lookup r ''series'' of
           Inl x \<Rightarrow> Inl x
         | Inr v \<Rightarrow>
            (if truthy v then
               (case lookup r ''series_index'' of
                  Inl x \<Rightarrow> Inl x
                | Inr i \<Rightarrow>
                   (case as_str v of
                      Inl x \<Rightarrow> Inl x
                    | Inr s \<Rightarrow> Inr [Elem ''series'' [(''index'', py_str e i)] s []]))
             else Inr []))
      else Inr [])"

text \<open>Lines 235-236.\<close>

definition xml_cover :: "env \<Rightarrow> string list \<Rightarrow> entry \<Rightarrow> error + xml list" where
  "xml_cover e flds r =
     (if ''cover'' \<in> set flds then
        (case lookup r ''cover'' of
           Inl x \<Rightarrow> Inl x
         | Inr v \<Rightarrow>
            (if truthy v then
               (case v of
                  PStr s \<Rightarrow> Inr [Elem ''cover'' [] (str_replace (os_sep e) ''/'' s) []]
                | PDate dt \<Rightarrow> Inl TypeError
                | _ \<Rightarrow> Inl AttributeError)
             else Inr []))
      else Inr [])"

text \<open>Lines 238-242.\<close>

definition xml_formats :: "env \<Rightarrow> string list \<Rightarrow> entry \<Rightarrow> error + xml list" where
  "xml_formats e flds r =
     (if ''formats'' \<in> set flds then
        (case lookup r ''formats'' of
           Inl x \<Rightarrow> Inl x
         | Inr v \<Rightarrow>
            (if truthy v then
               (case py_iter v of
                  Inl x \<Rightarrow> Inl x
                | Inr fs \<Rightarrow>
                   Inr [Elem ''formats'' [] []
                          (map (\<lambda>f. Elem ''format'' [] (str_replace (os_sep e) ''/'' f) []) fs)])
             else Inr []))
      else Inr [])"

text \<open>Lines 244-245.\<close>

definition xml_library_name :: "string list \<Rightarrow> string \<Rightarrow> error + xml list" where
  "xml_library_name flds current_library =
     (if ''library_name'' \<in> set flds then Inr [Elem ''library_name'' [] current_library []]
      else Inr [])"

text \<open>Lines 180-245: the children of one \<open>record\<close> element, or the first exception.\<close>

definition xml_children :: "env \<Rightarrow> db \<Rightarrow> string list \<Rightarrow> string \<Rightarrow> entry \<Rightarrow> error + xml list" where
  "xml_children e d flds current_library r =
     collect
       [xml_custom e d r flds,
        collect (map (xml_scalar e d flds r) scalar_fields),
        xml_title flds r,
        xml_authors flds r,
        collect (map (xml_date e flds r) [''timestamp'', ''pubdate'']),
        xml_tags flds r,
        xml_text_field flds r ''comments'',
        xml_series e flds r,
        xml_text_field flds r ''languages'',
        xml_cover e flds r,
        xml_formats e flds r,
        xml_library_name flds current_library]"

text \<open>Lines 179-247: the \<open>try\<close> statement. The handler reads \<open>r['title']\<close> for its
  message, which raises in its turn when the entry has no title.\<close>

definition xml_record :: "env \<Rightarrow> db \<Rightarrow> string list \<Rightarrow> string \<Rightarrow> entry \<Rightarrow> error + xml" where
  "xml_record e d flds current_library r =
     (case xml_children e d flds current_library r of
        Inr cs \<Rightarrow> Inr (Elem ''record'' [] [] cs)
      | Inl x \<Rightarrow>
         (case lookup r ''title'' of
            Inl k \<Rightarrow> Inl k
          | Inr t \<Rightarrow> Inl (ConvertFailed (py_str e t) x)))"

text \<open>Lines 178-247: the loop over the entries.\<close>

fun xml_records :: "env \<Rightarrow> db \<Rightarrow> string list \<Rightarrow> string \<Rightarrow> entry list \<Rightarrow> error + xml list" where
  "xml_records e d flds current_library [] = Inr []"
| "xml_records e d flds current_library (r # rs) =
     (case xml_record e d flds current_library r of
        Inl x \<Rightarrow> Inl x
      | Inr x \<Rightarrow>
         (case xml_records e d flds current_library rs of
            Inl y \<Rightarrow> Inl y
          | Inr xs \<Rightarrow> Inr (x # xs)))"

text \<open>Lines 174-177.\<close>

definition xml_root :: "opts \<Rightarrow> xml list \<Rightarrow> xml" where
  "xml_root ops recs =
     (case catalog_title ops of
        None \<Rightarrow> Elem ''calibredb'' [] [] recs
      | Some t \<Rightarrow> (if t \<noteq> [] then Elem ''calibredb'' [(''title'', t)] [] recs
                   else Elem ''calibredb'' [] [] recs))"

text \<open>Lines 172-251: the file is opened once the tree is complete.\<close>

definition run_xml :: "env \<Rightarrow> db \<Rightarrow> opts \<Rightarrow> string list \<Rightarrow> string \<Rightarrow> entry list \<Rightarrow> string \<Rightarrow> fs \<Rightarrow> (error + unit) \<times> fs" where
  "run_xml e d ops flds current_library data path_to_output files =
     (case xml_records e d flds current_library data of
        Inl x \<Rightarrow> (Inl x, files)
      | Inr recs \<Rightarrow> (Inr (), files(path_to_output \<mapsto> tostring e (xml_root ops recs))))"

section \<open>\<open>run\<close>\<close>

text \<open>Lines 102-104: the \<open>ondevice\<close> value of each entry, from the mapping of the
  database.\<close>

fun add_ondevice :: "env \<Rightarrow> db \<Rightarrow> entry list \<Rightarrow> error + entry list" where
  "add_ondevice e d [] = Inr []"
| "add_ondevice e d (r # rs) =
     (case lookup r ''id'' of
        Inl x \<Rightarrow> Inl x
      | Inr i \<Rightarrow>
         (case catalog_plugin_on_device_temp_mapping d i of
            None \<Rightarrow> Inl (KeyError (py_str e i))
          | Some m \<Rightarrow>
             (case lookup m ''ondevice'' of
                Inl x \<Rightarrow> Inl x
              | Inr v \<Rightarrow>
                 (case add_ondevice e d rs of
                    Inl x \<Rightarrow> Inl x
                  | Inr rs' \<Rightarrow> Inr (r(''ondevice'' \<mapsto> v) # rs')))))"

text \<open>Lines 65-67.\<close>

definition current_library :: "env \<Rightarrow> opts \<Rightarrow> string" where
  "current_library e ops =
     (case library_path ops of
        None \<Rightarrow> current_library_name e
      | Some p \<Rightarrow> (if p \<noteq> [] then basename e p else current_library_name e))"

text \<open>Line 102: the entries as they reach the writers.\<close>

definition with_ondevice :: "env \<Rightarrow> opts \<Rightarrow> db \<Rightarrow> entry list \<Rightarrow> string list \<Rightarrow> error + entry list" where
  "with_ondevice e ops d data flds =
     (if is_device_connected ops \<and> ''ondevice'' \<in> set flds then add_ondevice e d data
      else Inr data)"

text \<open>
  \<open>run\<close>, from the format of line 63 to the end. \<open>data\<close> is what \<open>search_sort_db\<close>
  returned and \<open>flds\<close> what \<open>get_output_fields\<close> returned; the log (lines 69-86 and
  94-95) is not modelled, and opening or writing the file does not fail.
  The result is the exception raised, if any, and the file system the run leaves.
\<close>

definition run :: "env \<Rightarrow> string \<Rightarrow> opts \<Rightarrow> db \<Rightarrow> entry list \<Rightarrow> string list \<Rightarrow> fs \<Rightarrow> (error + unit) \<times> fs" where
  "run e path_to_output ops d data flds files =
     (let fmt = rpartition_tail CHR ''.'' path_to_output in
      case with_ondevice e ops d data flds of
        Inl x \<Rightarrow> (Inl x, files)
      | Inr data' \<Rightarrow>
         (if fmt = ''csv'' then run_csv e d flds (current_library e ops) data' path_to_output files
          else if fmt = ''xml'' then run_xml e d ops flds (current_library e ops) data' path_to_output files
          else (Inr (), files)))"


section \<open>The CSV reader of the specification\<close>

text \<open>
  The inverse parse the specification describes for a row: split on the commas that
  are outside quotes, strip the outer quotes of each cell, undouble the quotes.
\<close>

fun spec_split_commas :: "bool \<Rightarrow> string \<Rightarrow> string \<Rightarrow> string list" where
  "spec_split_commas quoted cur [] = [cur]"
| "spec_split_commas quoted cur (c # cs) =
     (if c = DQ then spec_split_commas (\<not> quoted) (cur @ [c]) cs
      else if c = CHR '','' \<and> \<not> quoted then cur # spec_split_commas False [] cs
      else spec_split_commas quoted (cur @ [c]) cs)"

definition spec_strip_quotes :: "string \<Rightarrow> string" where
  "spec_strip_quotes s =
     (if 2 \<le> length s \<and> hd s = DQ \<and> last s = DQ then butlast (tl s) else s)"

fun spec_undouble :: "string \<Rightarrow> string" where
  "spec_undouble [] = []"
| "spec_undouble [c] = [c]"
| "spec_undouble (c # c' # cs) =
     (if c = DQ \<and> c' = DQ then DQ # spec_undouble cs else c # spec_undouble (c' # cs))"

definition spec_parse_row :: "string \<Rightarrow> string list" where
  "spec_parse_row row = map (\<lambda>cell. spec_undouble (spec_strip_quotes cell)) (spec_split_commas False [] row)"

text \<open>
  The rows of a CSV text as a reader sees them: a newline ends a row unless it stands
  between quotes. A row without any character has no cell.
\<close>

fun spec_lines :: "bool \<Rightarrow> string \<Rightarrow> string \<Rightarrow> string list" where
  "spec_lines quoted cur [] = (if cur = [] then [] else [cur])"
| "spec_lines quoted cur (c # cs) =
     (if c = DQ then spec_lines (\<not> quoted) (cur @ [c]) cs
      else if c = LF \<and> \<not> quoted then cur # spec_lines False [] cs
      else spec_lines quoted (cur @ [c]) cs)"

definition spec_parse_line :: "string \<Rightarrow> string list" where
  "spec_parse_line l = (if l = [] then [] else spec_parse_row l)"

definition spec_read_csv :: "string \<Rightarrow> string list list" where
  "spec_read_csv body = map spec_parse_line (spec_lines False [] body)"

section \<open>The tag heuristic of the specification\<close>

text \<open>
  An opening tag token with the name \<open>name\<close> stands at position \<open>i\<close> of a text, given as
  its characters: there is a \<open><\<close> at \<open>i\<close>, followed by the characters of \<open>name\<close>, a word,
  followed by a space or a \<open>>\<close>.
\<close>

definition tag_at :: "env \<Rightarrow> string list \<Rightarrow> nat \<Rightarrow> string list \<Rightarrow> bool" where
  "tag_at e cs i name =
     (name \<noteq> [] \<and> list_all (word_char e) name \<and>
      (\<exists>c rest. (c = '' '' \<or> c = ''>'') \<and> drop i cs = ''<'' # name @ c # rest))"

text \<open>
  The heuristic in the words of the specification: the string contains an opening tag
  token and a closing tag for the same name at its end.
\<close>

definition spec_html_like :: "env \<Rightarrow> string \<Rightarrow> bool" where
  "spec_html_like e s =
     (\<exists>i name. tag_at e (chars s) i name \<and> ends_with s (''</'' @ concat name @ ''>''))"

section \<open>Notions of the statements\<close>

text \<open>Every double quote doubled: what \<open>replace('"', '""')\<close> comes to.\<close>

definition double_quotes :: "string \<Rightarrow> string" where
  "double_quotes s = concat (map (\<lambda>c. if c = DQ then [DQ, DQ] else [c]) s)"

text \<open>The number of newline characters of a text.\<close>

definition line_breaks :: "string \<Rightarrow> nat" where
  "line_breaks s = length (filter (\<lambda>c. c = LF) s)"

text \<open>A row as line 168 writes it.\<close>

definition row_text :: "string list \<Rightarrow> string" where
  "row_text cells = str_join '','' cells @ [LF]"

text \<open>The children of a record element that carry a given tag.\<close>

definition children_named :: "string \<Rightarrow> xml list \<Rightarrow> xml list" where
  "children_named name cs = filter (\<lambda>x. elem_tag x = name) cs"

text \<open>The part of a record element that a field name stands for (lines 191-245).\<close>

definition xml_part :: "env \<Rightarrow> db \<Rightarrow> string list \<Rightarrow> string \<Rightarrow> entry \<Rightarrow> string \<Rightarrow> error + xml list" where
  "xml_part e d flds lib r n =
     (if n \<in> set scalar_fields then xml_scalar e d flds r n
      else if n = ''title'' then xml_title flds r
      else if n = ''authors'' then xml_authors flds r
      else if n = ''timestamp'' \<or> n = ''pubdate'' then xml_date e flds r n
      else if n = ''tags'' then xml_tags flds r
      else if n = ''comments'' \<or> n = ''languages'' then xml_text_field flds r n
      else if n = ''series'' then xml_series e flds r
      else if n = ''cover'' then xml_cover e flds r
      else if n = ''formats'' then xml_formats e flds r
      else if n = ''library_name'' then xml_library_name flds lib
      else Inr [])"


text \<open>The fields whose element the XML branch leaves out when the value is falsy
  (lines 195-196 and the conditions of lines 219-238).\<close>

definition omitted_when_falsy :: "string list" where
  "omitted_when_falsy = scalar_fields @
     [''tags'', ''comments'', ''series'', ''languages'', ''cover'', ''formats'']"

section \<open>A sample library\<close>

text \<open>An environment, a database and entries on which the theorems below are
  exercised. The Unicode tables of the sample environment are those of the Latin-1
  supplement (\<open>U+0080\<close> to \<open>U+00FF\<close>); the sample texts stay within it.\<close>

text \<open>The converter of the sample environment leaves out what stands between a \<open><\<close>
  and the next \<open>>\<close>.\<close>

fun strip_tags :: "bool \<Rightarrow> string \<Rightarrow> string" where
  "strip_tags inside [] = []"
| "strip_tags inside (c # cs) =
     (if c = CHR ''<'' then strip_tags True cs
      else if c = CHR ''>'' then strip_tags False cs
      else if inside then strip_tags inside cs
      else c # strip_tags inside cs)"

definition sample_env :: env where
  "sample_env =
     \<lparr>authors_to_string = (\<lambda>v. case v of PList xs \<Rightarrow> Inr (str_join '' & '' xs) | _ \<Rightarrow> Inl TypeError),
      isoformat = (\<lambda>v. case v of PDate (Datetime n) \<Rightarrow> Inr (str_of_int n) | _ \<Rightarrow> Inl AttributeError),
      html2text = (\<lambda>s. Inr (strip_tags False s)),
      str_datetime = (\<lambda>dt. case dt of Datetime n \<Rightarrow> str_of_int n),
      current_library_name = ''Library'',
      basename = rpartition_tail CHR ''/'',
      os_sep = [BSL],
      tostring = (\<lambda>x. concat (map elem_tag (elem_children x))),
      unicode_word = (\<lambda>ch. case ch of
          [a, b] \<Rightarrow> (a = CHR 0xC3 \<and> b \<noteq> CHR 0x97 \<and> b \<noteq> CHR 0xB7) \<or>
                    (a = CHR 0xC2 \<and> b \<in> set [CHR 0xAA, CHR 0xB2, CHR 0xB3, CHR 0xB5, CHR 0xB9,
                                            CHR 0xBA, CHR 0xBC, CHR 0xBD, CHR 0xBE])
        | _ \<Rightarrow> False),
      unicode_decimal = (\<lambda>ch. False),
      unicode_printable = (\<lambda>ch. case ch of
          [a, b] \<Rightarrow> a = CHR 0xC3 \<or> (a = CHR 0xC2 \<and> 161 \<le> (of_char b :: nat) \<and> b \<noteq> CHR 0xAD)
        | _ \<Rightarrow> False),
      unicode_lower = (\<lambda>s. concat (map (\<lambda>ch. case ch of
          [a] \<Rightarrow> [lower_char a]
        | [a, b] \<Rightarrow> (if a = CHR 0xC3 \<and> (of_char b :: nat) < 159 \<and> b \<noteq> CHR 0x97
                     then [a, char_of ((of_char b :: nat) + 32)] else ch)
        | _ \<Rightarrow> ch) (chars s)))\<rparr>"

definition sample_db :: db where
  "sample_db =
     \<lparr>get_field = (\<lambda>i f. if f = ''#names'' \<or> f = ''#genre'' then Inr (PList [''a'', ''b''])
                        else if f = ''#shelf'' then Inr (PTuple [''x''])
                        else Inl (External ''no such column'')),
      field_metadata =
        [''rating'' \<mapsto> \<lparr>fm_datatype = Some ''rating'', display_is_names = False\<rparr>,
         ''#names'' \<mapsto> \<lparr>fm_datatype = Some ''text'', display_is_names = True\<rparr>,
         ''#genre'' \<mapsto> \<lparr>fm_datatype = Some ''text'', display_is_names = False\<rparr>],
      catalog_plugin_on_device_temp_mapping = Map.empty\<rparr>"

definition sample_opts :: opts where
  "sample_opts = \<lparr>library_path = None, catalog_title = None, is_device_connected = False\<rparr>"

definition sample_entry :: entry where
  "sample_entry =
     [''id'' \<mapsto> PInt 1, ''title'' \<mapsto> PStr ''Title'', ''sort'' \<mapsto> PStr ''Title'',
      ''rating'' \<mapsto> PInt 10, ''tags'' \<mapsto> PList [],
      ''formats'' \<mapsto> PList [''C:'' @ [BSL] @ ''lib'' @ [BSL] @ ''book.EPUB'', ''/lib/book.mobi'']]"

definition untitled_entry :: entry where
  "untitled_entry = [''id'' \<mapsto> PInt 2, ''sort'' \<mapsto> PStr ''Untitled'']"

text \<open>Options of a run with a device connected; the sample database knows no
  book on the device.\<close>

definition connected_opts :: opts where
  "connected_opts = \<lparr>library_path = None, catalog_title = None, is_device_connected = True\<rparr>"

text \<open>An entry whose title has a quote and a comma, and entries whose titles have
  tags.\<close>

definition quoting_entry :: entry where
  "quoting_entry =
     [''id'' \<mapsto> PInt 4, ''title'' \<mapsto> PStr (''say '' @ [DQ] @ ''hi'' @ [DQ] @ '', twice''),
      ''sort'' \<mapsto> PStr ''say'']"

definition html_entry :: entry where
  "html_entry = [''id'' \<mapsto> PInt 5, ''title'' \<mapsto> PStr ''<p>Hello <b>world</b></p>'']"

definition accent_entry :: entry where
  "accent_entry =
     [''id'' \<mapsto> PInt 6,
      ''title'' \<mapsto> PStr (''<'' @ [CHR 0xC3, CHR 0xA9] @ ''>x</'' @ [CHR 0xC3, CHR 0xA9] @ ''>'')]"

definition two_tags_entry :: entry where
  "two_tags_entry = [''id'' \<mapsto> PInt 7, ''title'' \<mapsto> PStr ''<b>x</b> <p>y</p>'']"

definition tag_newline_entry :: entry where
  "tag_newline_entry = [''id'' \<mapsto> PInt 8, ''title'' \<mapsto> PStr (''<p>x</p>'' @ [LF])]"

definition plain_entry :: entry where
  "plain_entry = [''id'' \<mapsto> PInt 9, ''title'' \<mapsto> PStr ''a < b'']"


text \<open>An entry whose title has a line break.\<close>

definition two_line_entry :: entry where
  "two_line_entry = [''id'' \<mapsto> PInt 3, ''title'' \<mapsto> PStr (''a'' @ [LF] @ ''b''), ''sort'' \<mapsto> PStr ''a b'']"

section \<open>Properties\<close>

subsection \<open>Evaluation of the sample runs\<close>

lemma sample_no_device:
  "with_ondevice sample_env sample_opts sample_db data flds = Inr data"
  by (simp add: with_ondevice_def sample_opts_def)

lemma sample_library: "current_library sample_env sample_opts = ''Library''"
  by (simp add: current_library_def sample_opts_def sample_env_def)



lemma sample_title_cells:
  "csv_cells sample_env sample_db [''title''] ''Library'' sample_entry [''title'']
     = Inr [[DQ] @ ''Title'' @ [DQ]]"
  by code_simp



subsection \<open>Failures and the destination file\<close>






subsection \<open>The format of the destination\<close>

lemma rpartition_tail_ext:
  assumes "c \<notin> set ext"
  shows "rpartition_tail c (base @ c # ext) = ext"
proof -
  have "takeWhile (\<lambda>x. x \<noteq> c) (rev ext @ c # rev base) = takeWhile (\<lambda>x. x \<noteq> c) (rev ext)"
    by (rule takeWhile_tail) simp
  moreover have "takeWhile (\<lambda>x. x \<noteq> c) (rev ext) = rev ext"
    using assms by (intro takeWhile_eq_all_conv [THEN iffD2]) auto
  ultimately show ?thesis
    by (simp add: rpartition_tail_def)
qed

lemma sample_csv_run:
  "run_csv sample_env sample_db [''title''] ''Library'' [sample_entry] ''out.csv'' Map.empty
     = (Inr (), [''out.csv'' \<mapsto> BOM @ ''title'' @ [LF] @ [DQ] @ ''Title'' @ [DQ, LF]])"
  by (simp add: run_csv_def sample_title_cells del: csv_cells.simps)

lemma sample_no_mapping:
  "with_ondevice sample_env connected_opts sample_db [sample_entry] [''ondevice''] = Inl (KeyError ''1'')"
proof -
  have "str_of_int 1 = ''1''" by code_simp
  then show ?thesis
    by (simp add: with_ondevice_def connected_opts_def lookup_def sample_entry_def sample_db_def)
qed

text \<open>
  Claim C10, as the code has it. The format is what follows the last dot of the
  destination path, and nothing else of the path is looked at: the run is the CSV
  writer when it is \<open>csv\<close>, the XML writer when it is \<open>xml\<close>, and otherwise it leaves
  the file system as it was. In that last case the run raises only when the \<open>ondevice\<close>
  lookups of lines 102-104, which come before the format is looked at, raise; without
  a connected device, or without \<open>ondevice\<close> among the fields, it returns normally.
\<close>

theorem run_format_dispatch:
  assumes "CHR ''.'' \<notin> set ext"
  shows "run e (base @ CHR ''.'' # ext) ops d data flds files =
           (case with_ondevice e ops d data flds of
              Inl x \<Rightarrow> (Inl x, files)
            | Inr data' \<Rightarrow>
               (if ext = ''csv''
                  then run_csv e d flds (current_library e ops) data' (base @ CHR ''.'' # ext) files
                else if ext = ''xml''
                  then run_xml e d ops flds (current_library e ops) data' (base @ CHR ''.'' # ext) files
                else (Inr (), files))) \<and>
         (ext \<noteq> ''csv'' \<and> ext \<noteq> ''xml'' \<longrightarrow>
            snd (run e (base @ CHR ''.'' # ext) ops d data flds files) = files \<and>
            fst (run e (base @ CHR ''.'' # ext) ops d data flds files) =
              (case with_ondevice e ops d data flds of Inl x \<Rightarrow> Inl x | Inr data' \<Rightarrow> Inr ()) \<and>
            (\<not> (is_device_connected ops \<and> ''ondevice'' \<in> set flds) \<longrightarrow>
               run e (base @ CHR ''.'' # ext) ops d data flds files = (Inr (), files)))"
proof -
  have fmt: "rpartition_tail CHR ''.'' (base @ CHR ''.'' # ext) = ext"
    using assms by (rule rpartition_tail_ext)
  show ?thesis
    by (auto simp: run_def fmt with_ondevice_def split: sum.splits)
qed

theorem run_format_dispatch_witness:
  "run sample_env ''a.csv.txt'' sample_opts sample_db [sample_entry] [''title''] Map.empty
     = (Inr (), Map.empty) \<and>
   run sample_env ''out.csv'' sample_opts sample_db [sample_entry] [''title''] Map.empty
     = (Inr (), [''out.csv'' \<mapsto> BOM @ ''title'' @ [LF] @ [DQ] @ ''Title'' @ [DQ, LF]])"
proof -
  have 1: "CHR ''.'' \<notin> set ''txt''" and 2: "CHR ''.'' \<notin> set ''csv''"
    by simp_all
  have 3: "\<not> (is_device_connected sample_opts \<and> ''ondevice'' \<in> set [''title''])"
    by simp
  from run_format_dispatch [OF 1, of sample_env "''a.csv''" sample_opts sample_db
      "[sample_entry]" "[''title'']" Map.empty] 3
  have a: "run sample_env ''a.csv.txt'' sample_opts sample_db [sample_entry] [''title''] Map.empty
     = (Inr (), Map.empty)"
    by (simp add: sample_no_device)
  from run_format_dispatch [OF 2, of sample_env "''out''" sample_opts sample_db
      "[sample_entry]" "[''title'']" Map.empty]
  have b: "run sample_env ''out.csv'' sample_opts sample_db [sample_entry] [''title''] Map.empty
     = (Inr (), [''out.csv'' \<mapsto> BOM @ ''title'' @ [LF] @ [DQ] @ ''Title'' @ [DQ, LF]])"
    by (simp add: sample_no_device sample_library sample_csv_run)
  from a b show ?thesis ..
qed

text \<open>
  The claim as stated fails when a device is connected, \<open>ondevice\<close> is among the fields
  and the database has no mapping for the book: the run on a \<open>.txt\<close> destination
  raises \<open>KeyError\<close>.
\<close>

theorem run_format_dispatch_counterexample:
  "rpartition_tail CHR ''.'' ''catalog.txt'' = ''txt'' \<and>
   run sample_env ''catalog.txt'' connected_opts sample_db [sample_entry] [''ondevice''] Map.empty
     = (Inl (KeyError ''1''), Map.empty)"
  by (simp add: run_def sample_no_mapping rpartition_tail_def)

subsection \<open>Quoting of CSV cells\<close>

lemma replace_quotes: "str_replace [DQ] [DQ, DQ] s = double_quotes s"
  by (induction s) (auto simp: double_quotes_def)

lemma quote_cell_eq: "quote_cell s = DQ # double_quotes s @ [DQ]"
  by (simp add: quote_cell_def replace_quotes)

lemma split_inside:
  "spec_split_commas True cur (double_quotes s @ DQ # rest)
     = spec_split_commas False (cur @ double_quotes s @ [DQ]) rest"
proof (induction s arbitrary: cur)
  case Nil
  show ?case by (simp add: double_quotes_def)
next
  case (Cons c s)
  have dq: "double_quotes (c # s) = (if c = DQ then [DQ, DQ] else [c]) @ double_quotes s"
    by (simp add: double_quotes_def)
  show ?case
  proof (cases "c = DQ")
    case True
    with Cons.IH [of "cur @ [DQ, DQ]"] dq show ?thesis by simp
  next
    case False
    with Cons.IH [of "cur @ [c]"] dq show ?thesis by simp
  qed
qed

lemma split_cell_end: "spec_split_commas False [] (quote_cell v) = [quote_cell v]"
  using split_inside [of "[DQ]" v "[]"] by (simp add: quote_cell_eq)

lemma split_cell_more:
  "spec_split_commas False [] (quote_cell v @ CHR '','' # rest)
     = quote_cell v # spec_split_commas False [] rest"
  using split_inside [of "[DQ]" v "CHR '','' # rest"] by (simp add: quote_cell_eq)

lemma split_row:
  "spec_split_commas False [] (str_join '','' (map quote_cell (v # vs))) = map quote_cell (v # vs)"
proof (induction vs arbitrary: v)
  case Nil
  show ?case by (simp add: split_cell_end)
next
  case (Cons w ws)
  have "str_join '','' (map quote_cell (v # w # ws))
          = quote_cell v @ CHR '','' # str_join '','' (map quote_cell (w # ws))"
    by simp
  then show ?case using Cons.IH [of w] by (simp only: split_cell_more) simp
qed

lemma strip_cell: "spec_strip_quotes (quote_cell v) = double_quotes v"
  by (simp add: spec_strip_quotes_def quote_cell_eq butlast_append)

lemma undouble_cell: "spec_undouble (double_quotes v) = v"
proof (induction v)
  case Nil
  show ?case by (simp add: double_quotes_def)
next
  case (Cons c v)
  have dq: "double_quotes (c # v) = (if c = DQ then [DQ, DQ] else [c]) @ double_quotes v"
    by (simp add: double_quotes_def)
  show ?case
  proof (cases "c = DQ")
    case True
    with Cons.IH dq show ?thesis by simp
  next
    case False
    show ?thesis
    proof (cases "double_quotes v")
      case Nil
      with Cons.IH have "v = []" by simp
      with False show ?thesis by (simp add: double_quotes_def)
    next
      case (Cons x xs)
      with False dq \<open>spec_undouble (double_quotes v) = v\<close> show ?thesis by simp
    qed
  qed
qed

lemma csv_cell_quoted_item:
  fixes lib :: string
  assumes "resolve d flds lib r f = Inr item" and "item \<noteq> PNone"
    and "normalize e d flds f item = Inr item'" and "html_to_text e item' = Inr item''"
  shows "csv_cell e d flds lib r f = Inr (quote_cell (py_str e item''))"
  using assms by (cases item) (simp_all add: csv_cell_def)

lemma quote_empty: "quote_cell [] = [DQ, DQ]"
  by (simp add: quote_cell_def)

lemma csv_cell_quoted:
  fixes lib :: string
  assumes "csv_cell e d flds lib r f = Inr c"
  shows "\<exists>v. c = quote_cell v"
proof (cases "resolve d flds lib r f = Inr PNone")
  case True
  with assms have "c = quote_cell []"
    by (simp add: csv_cell_def quote_empty)
  then show ?thesis ..
next
  case False
  with assms show ?thesis
    by (auto simp: csv_cell_def split: sum.splits pyval.splits)
qed

lemma csv_cells_quoted:
  "csv_cells e d flds lib r fs = Inr cells \<Longrightarrow>
     \<exists>vs. cells = map quote_cell vs \<and> length vs = length fs"
proof (induction fs arbitrary: cells)
  case Nil
  then show ?case by simp
next
  case (Cons f fs)
  from Cons.prems obtain c cs where
    c: "csv_cell e d flds lib r f = Inr c" and cs: "csv_cells e d flds lib r fs = Inr cs"
    and cells: "cells = c # cs"
    by (auto split: sum.splits)
  from csv_cell_quoted [OF c] obtain v where v: "c = quote_cell v" by blast
  from Cons.IH [OF cs] obtain vs where vs: "cs = map quote_cell vs" "length vs = length fs" by blast
  from v vs cells have "cells = map quote_cell (v # vs) \<and> length (v # vs) = length (f # fs)" by simp
  then show ?case by blast
qed

lemma sample_quoting_cell:
  "csv_cell sample_env sample_db [''title''] ''Library'' quoting_entry ''title''
     = Inr ([DQ] @ ''say '' @ [DQ, DQ] @ ''hi'' @ [DQ, DQ] @ '', twice'' @ [DQ])"
  by code_simp

lemma quoting_row_cells:
  "csv_cells sample_env sample_db [''title'', ''id''] ''Library'' quoting_entry [''title'', ''id'']
     = Inr [[DQ] @ ''say '' @ [DQ, DQ] @ ''hi'' @ [DQ, DQ] @ '', twice'' @ [DQ], [DQ] @ ''4'' @ [DQ]]"
  by code_simp

lemma quoting_row_parse:
  "spec_parse_row (str_join '',''
      [[DQ] @ ''say '' @ [DQ, DQ] @ ''hi'' @ [DQ, DQ] @ '', twice'' @ [DQ], [DQ] @ ''4'' @ [DQ]])
     = [''say '' @ [DQ] @ ''hi'' @ [DQ] @ '', twice'', ''4'']"
  by code_simp

text \<open>
  Claim C5. Whatever reaches line 166 of the CSV writer, the cell written is its
  string with every double quote doubled, between two double quotes, and the inverse
  parse of the specification gives that string back. The cell of \<open>None\<close> parses to the
  empty string. The cells of a whole row, joined by commas, parse back to the strings
  they were made from, one per field.
\<close>

theorem csv_quote_round_trip:
  "(resolve d flds lib r f = Inr item \<and> item \<noteq> PNone \<and>
    normalize e d flds f item = Inr item' \<and> html_to_text e item' = Inr item'' \<longrightarrow>
      csv_cell e d flds lib r f =
        Inr ([DQ] @ concat (map (\<lambda>c. if c = DQ then [DQ, DQ] else [c]) (py_str e item'')) @ [DQ]) \<and>
      spec_parse_row ([DQ] @ concat (map (\<lambda>c. if c = DQ then [DQ, DQ] else [c]) (py_str e item'')) @ [DQ])
        = [py_str e item'']) \<and>
   (resolve d flds lib r f = Inr PNone \<longrightarrow>
      csv_cell e d flds lib r f = Inr [DQ, DQ] \<and> spec_parse_row [DQ, DQ] = [[]]) \<and>
   (csv_cells e d flds lib r (g # gs) = Inr cells \<longrightarrow>
      (\<exists>vs. length vs = length (g # gs) \<and>
         cells = map (\<lambda>v. [DQ] @ concat (map (\<lambda>c. if c = DQ then [DQ, DQ] else [c]) v) @ [DQ]) vs \<and>
         spec_parse_row (str_join '','' cells) = vs))"
proof (intro conjI impI)
  assume a: "resolve d flds lib r f = Inr item \<and> item \<noteq> PNone \<and>
    normalize e d flds f item = Inr item' \<and> html_to_text e item' = Inr item''"
  then have "csv_cell e d flds lib r f = Inr (quote_cell (py_str e item''))"
    by (intro csv_cell_quoted_item [where item = item and item' = item']) simp_all
  then show "csv_cell e d flds lib r f =
        Inr ([DQ] @ concat (map (\<lambda>c. if c = DQ then [DQ, DQ] else [c]) (py_str e item'')) @ [DQ])"
    by (simp add: quote_cell_eq double_quotes_def)
  have "spec_parse_row (quote_cell (py_str e item'')) = [py_str e item'']"
    by (simp add: spec_parse_row_def split_cell_end strip_cell undouble_cell)
  then show "spec_parse_row ([DQ] @ concat (map (\<lambda>c. if c = DQ then [DQ, DQ] else [c]) (py_str e item'')) @ [DQ])
        = [py_str e item'']"
    by (simp add: quote_cell_eq double_quotes_def)
next
  assume "resolve d flds lib r f = Inr PNone"
  then show "csv_cell e d flds lib r f = Inr [DQ, DQ]"
    by (simp add: csv_cell_def)
  have "spec_parse_row (quote_cell []) = [[]]"
    by (simp add: spec_parse_row_def split_cell_end strip_cell undouble_cell)
  then show "spec_parse_row [DQ, DQ] = [[]]"
    by (simp add: quote_empty)
next
  assume "csv_cells e d flds lib r (g # gs) = Inr cells"
  from csv_cells_quoted [OF this] obtain vs where
    vs: "cells = map quote_cell vs" "length vs = length (g # gs)" by blast
  then obtain w ws where w: "vs = w # ws" by (cases vs) auto
  have "map (\<lambda>cell. spec_undouble (spec_strip_quotes cell)) (map quote_cell (w # ws)) = w # ws"
    by (simp add: strip_cell undouble_cell map_idI)
  then have "spec_parse_row (str_join '','' (map quote_cell (w # ws))) = w # ws"
    by (simp only: spec_parse_row_def split_row)
  with vs w have "length vs = length (g # gs) \<and>
         cells = map (\<lambda>v. [DQ] @ concat (map (\<lambda>c. if c = DQ then [DQ, DQ] else [c]) v) @ [DQ]) vs \<and>
         spec_parse_row (str_join '','' cells) = vs"
    by (simp add: quote_cell_eq double_quotes_def)
  then show "\<exists>vs. length vs = length (g # gs) \<and>
         cells = map (\<lambda>v. [DQ] @ concat (map (\<lambda>c. if c = DQ then [DQ, DQ] else [c]) v) @ [DQ]) vs \<and>
         spec_parse_row (str_join '','' cells) = vs"
    by blast
qed

theorem csv_quote_round_trip_witness:
  "csv_cell sample_env sample_db [''title''] ''Library'' quoting_entry ''title''
     = Inr ([DQ] @ ''say '' @ [DQ, DQ] @ ''hi'' @ [DQ, DQ] @ '', twice'' @ [DQ]) \<and>
   spec_parse_row ([DQ] @ ''say '' @ [DQ, DQ] @ ''hi'' @ [DQ, DQ] @ '', twice'' @ [DQ])
     = [''say '' @ [DQ] @ ''hi'' @ [DQ] @ '', twice''] \<and>
   csv_cells sample_env sample_db [''title'', ''id''] ''Library'' quoting_entry [''title'', ''id'']
     = Inr [[DQ] @ ''say '' @ [DQ, DQ] @ ''hi'' @ [DQ, DQ] @ '', twice'' @ [DQ], [DQ] @ ''4'' @ [DQ]] \<and>
   spec_parse_row (str_join '',''
      [[DQ] @ ''say '' @ [DQ, DQ] @ ''hi'' @ [DQ, DQ] @ '', twice'' @ [DQ], [DQ] @ ''4'' @ [DQ]])
     = [''say '' @ [DQ] @ ''hi'' @ [DQ] @ '', twice'', ''4'']"
proof -
  let ?t = "PStr (''say '' @ [DQ] @ ''hi'' @ [DQ] @ '', twice'')"
  have 1: "resolve sample_db [''title''] ''Library'' quoting_entry ''title'' = Inr ?t"
    by (simp add: resolve_def is_custom_def lookup_def quoting_entry_def)
  have 2: "normalize sample_env sample_db [''title''] ''title'' ?t = Inr ?t"
    by (simp add: normalize_def fm_def sample_db_def empty_meta_def)
  have 3: "html_to_text sample_env ?t = Inr ?t"
    by code_simp
  from csv_quote_round_trip [of sample_db "[''title'']" "''Library''" quoting_entry "''title''" ?t
      sample_env ?t ?t] 1 2 3
  have "spec_parse_row ([DQ] @ ''say '' @ [DQ, DQ] @ ''hi'' @ [DQ, DQ] @ '', twice'' @ [DQ])
     = [''say '' @ [DQ] @ ''hi'' @ [DQ] @ '', twice'']"
    by simp
  with sample_quoting_cell quoting_row_cells quoting_row_parse show ?thesis
    by blast
qed

subsection \<open>The children of a record element, by tag\<close>

lemma children_named_append [simp]:
  "children_named n (xs @ ys) = children_named n xs @ children_named n ys"
  by (simp add: children_named_def)

lemma children_named_Nil [simp]: "children_named n [] = []"
  by (simp add: children_named_def)

lemma children_named_single [simp]:
  "children_named n [Elem t a x c] = (if t = n then [Elem t a x c] else [])"
  by (simp add: children_named_def)

lemma collect_Cons_Inr:
  "collect (p # ps) = Inr zs \<longleftrightarrow> (\<exists>xs ys. p = Inr xs \<and> collect ps = Inr ys \<and> zs = xs @ ys)"
  by (auto split: sum.splits)

lemma collect_Nil_Inr: "collect [] = Inr zs \<longleftrightarrow> zs = []"
  by auto

lemma custom_tag: "is_custom f \<Longrightarrow> str_replace ''#'' ''_'' f = CHR ''_'' # str_replace ''#'' ''_'' (tl f)"
  by (cases f) (auto simp: is_custom_def)

lemma named_custom:
  assumes "xml_custom e d r fs = Inr xs" and "n = [] \<or> hd n \<noteq> CHR ''_''"
  shows "children_named n xs = []"
  using assms
proof (induction fs arbitrary: xs)
  case Nil
  then show ?case by simp
next
  case (Cons f fs)
  show ?case
  proof (cases "is_custom f")
    case True
    with Cons.prems(1) obtain i val rest where
      "xml_custom e d r fs = Inr rest"
      "xs = Elem (str_replace ''#'' ''_'' f) [] (py_str e val) [] # rest"
      by (auto split: sum.splits)
    with Cons.IH [of rest] Cons.prems(2) custom_tag [OF True] show ?thesis
      by (auto simp: children_named_def)
  next
    case False
    with Cons show ?thesis by simp
  qed
qed

lemma named_scalar:
  "xml_scalar e d flds r f = Inr xs \<Longrightarrow> children_named n xs = (if n = f then xs else [])"
  by (auto simp: xml_scalar_def split: if_splits sum.splits pyval.splits)

lemma named_title:
  "xml_title flds r = Inr xs \<Longrightarrow> children_named n xs = (if n = ''title'' then xs else [])"
  by (auto simp: xml_title_def split: if_splits sum.splits)

lemma named_authors:
  "xml_authors flds r = Inr xs \<Longrightarrow> children_named n xs = (if n = ''authors'' then xs else [])"
  by (auto simp: xml_authors_def split: if_splits sum.splits)

lemma named_date:
  "xml_date e flds r f = Inr xs \<Longrightarrow> children_named n xs = (if n = f then xs else [])"
  by (auto simp: xml_date_def split: if_splits sum.splits)

lemma named_tags:
  "xml_tags flds r = Inr xs \<Longrightarrow> children_named n xs = (if n = ''tags'' then xs else [])"
  by (auto simp: xml_tags_def split: if_splits sum.splits)

lemma named_text_field:
  "xml_text_field flds r f = Inr xs \<Longrightarrow> children_named n xs = (if n = f then xs else [])"
  by (auto simp: xml_text_field_def split: if_splits sum.splits)

lemma named_series:
  "xml_series e flds r = Inr xs \<Longrightarrow> children_named n xs = (if n = ''series'' then xs else [])"
  by (auto simp: xml_series_def split: if_splits sum.splits)

lemma named_cover:
  "xml_cover e flds r = Inr xs \<Longrightarrow> children_named n xs = (if n = ''cover'' then xs else [])"
  by (auto simp: xml_cover_def split: if_splits sum.splits pyval.splits)

lemma named_formats:
  "xml_formats e flds r = Inr xs \<Longrightarrow> children_named n xs = (if n = ''formats'' then xs else [])"
  by (auto simp: xml_formats_def split: if_splits sum.splits)

lemma named_library_name:
  "xml_library_name flds lib = Inr xs \<Longrightarrow> children_named n xs = (if n = ''library_name'' then xs else [])"
  by (auto simp: xml_library_name_def split: if_splits)

lemma children_of_part:
  assumes "xml_children e d flds lib r = Inr cs" and "n = [] \<or> hd n \<noteq> CHR ''_''"
  shows "xml_part e d flds lib r n = Inr (children_named n cs)"
proof -
  from assms(1) obtain cu s1 s2 s3 s4 s5 s6 s7 s8 ti au d1 d2 ta co se la cv fo li where
    parts: "xml_custom e d r flds = Inr cu"
      "xml_scalar e d flds r ''id'' = Inr s1" "xml_scalar e d flds r ''uuid'' = Inr s2"
      "xml_scalar e d flds r ''publisher'' = Inr s3" "xml_scalar e d flds r ''rating'' = Inr s4"
      "xml_scalar e d flds r ''size'' = Inr s5" "xml_scalar e d flds r ''isbn'' = Inr s6"
      "xml_scalar e d flds r ''ondevice'' = Inr s7" "xml_scalar e d flds r ''identifiers'' = Inr s8"
      "xml_title flds r = Inr ti" "xml_authors flds r = Inr au"
      "xml_date e flds r ''timestamp'' = Inr d1" "xml_date e flds r ''pubdate'' = Inr d2"
      "xml_tags flds r = Inr ta" "xml_text_field flds r ''comments'' = Inr co"
      "xml_series e flds r = Inr se" "xml_text_field flds r ''languages'' = Inr la"
      "xml_cover e flds r = Inr cv" "xml_formats e flds r = Inr fo"
      "xml_library_name flds lib = Inr li"
    and cs: "cs = cu @ (s1 @ s2 @ s3 @ s4 @ s5 @ s6 @ s7 @ s8) @ ti @ au @ (d1 @ d2) @ ta @ co @ se @ la @ cv @ fo @ li"
    unfolding xml_children_def scalar_fields_def list.map collect_Cons_Inr collect_Nil_Inr
    by auto
  note nm = named_custom [OF parts(1) assms(2)]
    named_scalar [OF parts(2)] named_scalar [OF parts(3)] named_scalar [OF parts(4)]
    named_scalar [OF parts(5)] named_scalar [OF parts(6)] named_scalar [OF parts(7)]
    named_scalar [OF parts(8)] named_scalar [OF parts(9)]
    named_title [OF parts(10)] named_authors [OF parts(11)]
    named_date [OF parts(12)] named_date [OF parts(13)]
    named_tags [OF parts(14)] named_text_field [OF parts(15)]
    named_series [OF parts(16)] named_text_field [OF parts(17)]
    named_cover [OF parts(18)] named_formats [OF parts(19)]
    named_library_name [OF parts(20)]
  have "children_named n cs =
     (if n = ''id'' then s1 else if n = ''uuid'' then s2 else if n = ''publisher'' then s3
      else if n = ''rating'' then s4 else if n = ''size'' then s5 else if n = ''isbn'' then s6
      else if n = ''ondevice'' then s7 else if n = ''identifiers'' then s8
      else if n = ''title'' then ti else if n = ''authors'' then au
      else if n = ''timestamp'' then d1 else if n = ''pubdate'' then d2
      else if n = ''tags'' then ta else if n = ''comments'' then co
      else if n = ''series'' then se else if n = ''languages'' then la
      else if n = ''cover'' then cv else if n = ''formats'' then fo
      else if n = ''library_name'' then li else [])"
    unfolding cs children_named_append nm by simp
  then show ?thesis
    using parts by (simp add: xml_part_def scalar_fields_def)
qed

subsection \<open>Ratings\<close>

lemma half_2g_10: "half_2g 10 = ''5''" by code_simp
lemma str_of_int_0: "str_of_int 0 = ''0''" by code_simp
lemma not_html_5: "looks_like_html e ''5'' = False"
  by (simp add: looks_like_html_def opening_tag_def)
lemma not_html_0: "looks_like_html e ''0'' = False"
  by (simp add: looks_like_html_def opening_tag_def)
lemma quote_5: "quote_cell ''5'' = [DQ, CHR ''5'', DQ]" by (simp add: quote_cell_def)
lemma quote_0: "quote_cell ''0'' = [DQ, CHR ''0'', DQ]" by (simp add: quote_cell_def)

lemma rating_not_custom: "\<not> is_custom ''rating''" by (simp add: is_custom_def)

text \<open>
  Claim C1, as the code has it. For a \<open>rating\<close> field whose metadata says
  \<open>rating\<close>: a raw 10 is shown as \<open>5\<close> by both writers (\<open>.2g\<close> drops the trailing
  zero), \<open>None\<close> gives the empty cell and no element, and a raw 0 gives no element in
  XML and the cell \<open>"0"\<close> in CSV.
\<close>

theorem rating_display:
  assumes meta: "fm_datatype (fm d flds ''rating'') = Some ''rating''"
    and val: "r ''rating'' = Some v"
    and v: "v = PInt 10 \<or> v = PInt 0 \<or> v = PNone"
  shows "csv_cell e d flds lib r ''rating'' =
           Inr (if v = PInt 10 then [DQ, CHR ''5'', DQ]
                else if v = PInt 0 then [DQ, CHR ''0'', DQ]
                else [DQ, DQ]) \<and>
         (\<forall>cs. xml_children e d flds lib r = Inr cs \<longrightarrow>
            children_named ''rating'' cs =
              (if v = PInt 10 then [Elem ''rating'' [] ''5'' []] else []))"
proof (intro conjI allI impI)
  have res: "resolve d flds lib r ''rating'' = Inr v"
    using val by (simp add: resolve_def rating_not_custom lookup_def)
  show "csv_cell e d flds lib r ''rating'' =
           Inr (if v = PInt 10 then [DQ, CHR ''5'', DQ]
                else if v = PInt 0 then [DQ, CHR ''0'', DQ]
                else [DQ, DQ])"
    using v meta
    by (auto simp: csv_cell_def res normalize_def half_2g_10 str_of_int_0 html_to_text_def
        not_html_5 not_html_0 quote_5 quote_0)
next
  fix cs
  assume "xml_children e d flds lib r = Inr cs"
  then have "xml_part e d flds lib r ''rating'' = Inr (children_named ''rating'' cs)"
    by (rule children_of_part) simp
  moreover have "''rating'' \<in> set flds"
    using meta by (auto simp: fm_def empty_meta_def split: if_splits)
  ultimately show "children_named ''rating'' cs =
              (if v = PInt 10 then [Elem ''rating'' [] ''5'' []] else [])"
    using v val meta
    by (auto simp: xml_part_def scalar_fields_def xml_scalar_def lookup_def half_2g_10)
qed

lemma sample_rating_meta: "fm_datatype (fm sample_db [''rating''] ''rating'') = Some ''rating''"
  by (simp add: fm_def sample_db_def)

lemma sample_rating_children:
  "xml_children sample_env sample_db [''rating''] ''Library'' sample_entry = Inr [Elem ''rating'' [] ''5'' []]"
  by (simp add: xml_children_def xml_title_def xml_authors_def xml_date_def xml_tags_def
     xml_text_field_def xml_series_def xml_cover_def xml_formats_def xml_library_name_def
     xml_scalar_def scalar_fields_def lookup_def sample_entry_def is_custom_def
     sample_rating_meta half_2g_10)

theorem rating_display_witness:
  "csv_cell sample_env sample_db [''rating''] ''Library'' sample_entry ''rating'' = Inr [DQ, CHR ''5'', DQ] \<and>
   xml_children sample_env sample_db [''rating''] ''Library'' sample_entry = Inr [Elem ''rating'' [] ''5'' []] \<and>
   children_named ''rating'' [Elem ''rating'' [] ''5'' []] = [Elem ''rating'' [] ''5'' []]"
proof -
  have "sample_entry ''rating'' = Some (PInt 10)"
    by (simp add: sample_entry_def)
  with rating_display [where d = sample_db and flds = "[''rating'']" and r = sample_entry
      and v = "PInt 10" and e = sample_env and lib = "''Library''"]
    sample_rating_meta sample_rating_children
  show ?thesis by simp
qed

text \<open>
  The claim as stated fails on the sample entry, whose rating is 10: both writers
  show \<open>5\<close>, not \<open>5.0\<close>; and a raw 0 is written to CSV as \<open>"0"\<close>, not as the empty
  cell.
\<close>

theorem rating_display_counterexample:
  "csv_cell sample_env sample_db [''rating''] ''Library'' sample_entry ''rating'' = Inr [DQ, CHR ''5'', DQ] \<and>
   [DQ, CHR ''5'', DQ] \<noteq> quote_cell ''5.0'' \<and>
   xml_children sample_env sample_db [''rating''] ''Library'' sample_entry = Inr [Elem ''rating'' [] ''5'' []] \<and>
   csv_cell sample_env sample_db [''rating''] ''Library'' (sample_entry(''rating'' \<mapsto> PInt 0)) ''rating''
     = Inr [DQ, CHR ''0'', DQ]"
proof (intro conjI)
  show "csv_cell sample_env sample_db [''rating''] ''Library'' sample_entry ''rating'' = Inr [DQ, CHR ''5'', DQ]"
    by (simp add: csv_cell_def resolve_def rating_not_custom lookup_def sample_entry_def
        normalize_def sample_rating_meta half_2g_10 html_to_text_def not_html_5 quote_5)
  show "[DQ, CHR ''5'', DQ] \<noteq> quote_cell ''5.0''"
    by (simp add: quote_cell_def)
  show "xml_children sample_env sample_db [''rating''] ''Library'' sample_entry = Inr [Elem ''rating'' [] ''5'' []]"
    by (rule sample_rating_children)
  show "csv_cell sample_env sample_db [''rating''] ''Library'' (sample_entry(''rating'' \<mapsto> PInt 0)) ''rating''
     = Inr [DQ, CHR ''0'', DQ]"
    by (simp add: csv_cell_def resolve_def rating_not_custom lookup_def
        normalize_def sample_rating_meta str_of_int_0 html_to_text_def not_html_0 quote_0)
qed

subsection \<open>Formats\<close>









subsection \<open>Custom fields\<close>

lemma xml_custom_by_id:
  "r' ''id'' = r ''id'' \<Longrightarrow> xml_custom e d r' fs = xml_custom e d r fs"
  by (induction fs) (auto simp: lookup_def split: sum.splits option.splits)

lemma resolve_custom_by_id:
  "is_custom f \<Longrightarrow> r' ''id'' = r ''id'' \<Longrightarrow> resolve d flds lib r' f = resolve d flds lib r f"
  by (simp add: resolve_def lookup_def)

lemma resolve_custom_list:
  assumes "is_custom f" and "r ''id'' = Some i"
    and "get_field d i f = Inr (PList xs) \<or> get_field d i f = Inr (PTuple xs)"
  shows "resolve d flds lib r f =
           Inr (PStr (str_join (if display_is_names (fm d flds f) then '' & '' else '', '') xs))"
  using assms by (auto simp: resolve_def lookup_def)

lemma sample_names_cell:
  "csv_cell sample_env sample_db [''#names''] ''Library'' sample_entry ''#names''
     = Inr ([DQ] @ ''a & b'' @ [DQ])"
  by code_simp

lemma sample_names_element:
  "xml_custom sample_env sample_db sample_entry [''#names'']
     = Inr [Elem ''_names'' [] ([CHR ''['', SQ, CHR ''a'', SQ, CHR '','', CHR '' '', SQ, CHR ''b'', SQ, CHR '']'']) []]"
  by code_simp

lemma sample_shelf_cell:
  "csv_cell sample_env sample_db [''#shelf''] ''Library'' sample_entry ''#shelf''
     = Inr ([DQ] @ ''x'' @ [DQ])"
  by code_simp

lemma sample_shelf_element:
  "xml_custom sample_env sample_db sample_entry [''#shelf'']
     = Inr [Elem ''_shelf'' [] ([CHR ''('', SQ, CHR ''x'', SQ, CHR '','', CHR '')'']) []]"
  by code_simp

text \<open>
  Claim C3. Both writers read a custom field with \<open>db.get_field\<close> on the \<open>id\<close> of the
  entry, and the CSV writer joins a list by \<open>" & "\<close> or \<open>", "\<close>. The XML writer does not
  join: for the name-valued column \<open>#names\<close> with the value \<open>['a', 'b']\<close> it writes the
  text \<open>['a', 'b']\<close>, and for the tuple \<open>('x',)\<close> of \<open>#shelf\<close> the text \<open>('x',)\<close>, where the CSV
  cells hold \<open>a & b\<close> and \<open>x\<close>.
\<close>

theorem custom_field_xml_not_joined:
  "csv_cell sample_env sample_db [''#names''] ''Library'' sample_entry ''#names''
     = Inr ([DQ] @ ''a & b'' @ [DQ]) \<and>
   xml_custom sample_env sample_db sample_entry [''#names'']
     = Inr [Elem ''_names'' [] ([CHR ''['', SQ, CHR ''a'', SQ, CHR '','', CHR '' '', SQ, CHR ''b'', SQ, CHR '']'']) []] \<and>
   [CHR ''['', SQ, CHR ''a'', SQ, CHR '','', CHR '' '', SQ, CHR ''b'', SQ, CHR '']''] \<noteq> ''a & b'' \<and>
   csv_cell sample_env sample_db [''#shelf''] ''Library'' sample_entry ''#shelf''
     = Inr ([DQ] @ ''x'' @ [DQ]) \<and>
   xml_custom sample_env sample_db sample_entry [''#shelf'']
     = Inr [Elem ''_shelf'' [] ([CHR ''('', SQ, CHR ''x'', SQ, CHR '','', CHR '')'']) []]"
  using sample_names_cell sample_names_element sample_shelf_cell sample_shelf_element by simp

subsection \<open>The HTML check of the CSV writer\<close>

lemma delimiters_not_word: "\<not> word_char e '' ''" "\<not> word_char e ''>''"
  by (simp_all add: word_char_def is_ascii_def is_word_def is_upper_def is_lower_def is_digit_def)

lemma tag_at_Nil: "\<not> tag_at e [] i name"
  by (simp add: tag_at_def)

lemma tag_at_Suc: "tag_at e (ch # chs) (Suc i) name = tag_at e chs i name"
  by (simp add: tag_at_def)

lemma tag_at_0:
  "tag_at e (ch # chs) 0 name \<longleftrightarrow>
     ch = ''<'' \<and> name = takeWhile (word_char e) chs \<and> name \<noteq> [] \<and>
     (case dropWhile (word_char e) chs of [] \<Rightarrow> False | x # _ \<Rightarrow> x = '' '' \<or> x = ''>'')"
proof
  assume "tag_at e (ch # chs) 0 name"
  then obtain c rest where
    n: "name \<noteq> []" "list_all (word_char e) name" and c: "c = '' '' \<or> c = ''>''"
    and eq: "ch # chs = ''<'' # name @ c # rest"
    by (auto simp: tag_at_def)
  from c have nw: "\<not> word_char e c" using delimiters_not_word by auto
  from eq have chs: "chs = name @ c # rest" and ch: "ch = ''<''" by simp_all
  from n(2) have all: "\<And>x. x \<in> set name \<Longrightarrow> word_char e x"
    by (simp add: list_all_iff)
  have t: "takeWhile (word_char e) chs = name"
    using all nw by (simp add: chs takeWhile_append2)
  have d: "dropWhile (word_char e) chs = c # rest"
    using all nw by (simp add: chs dropWhile_append2)
  from ch t d n(1) c
  show "ch = ''<'' \<and> name = takeWhile (word_char e) chs \<and> name \<noteq> [] \<and>
     (case dropWhile (word_char e) chs of [] \<Rightarrow> False | x # _ \<Rightarrow> x = '' '' \<or> x = ''>'')"
    by simp
next
  assume a: "ch = ''<'' \<and> name = takeWhile (word_char e) chs \<and> name \<noteq> [] \<and>
     (case dropWhile (word_char e) chs of [] \<Rightarrow> False | x # _ \<Rightarrow> x = '' '' \<or> x = ''>'')"
  then obtain c rest where d: "dropWhile (word_char e) chs = c # rest" and c: "c = '' '' \<or> c = ''>''"
    by (auto split: list.splits)
  have "chs = takeWhile (word_char e) chs @ dropWhile (word_char e) chs"
    by simp
  with a d have eq: "drop 0 (ch # chs) = ''<'' # name @ c # rest" by simp
  from a have l: "list_all (word_char e) name"
    by (auto simp: list_all_iff dest: set_takeWhileD)
  from a have n: "name \<noteq> []" by blast
  from c eq have "\<exists>c rest. (c = '' '' \<or> c = ''>'') \<and> drop 0 (ch # chs) = ''<'' # name @ c # rest"
    by blast
  with n l show "tag_at e (ch # chs) 0 name"
    unfolding tag_at_def by blast
qed

lemma no_opening_tag:
  "opening_tag_in e cs = None \<longleftrightarrow> (\<forall>i name. \<not> tag_at e cs i name)"
proof (induction cs)
  case Nil
  show ?case by (simp add: tag_at_Nil)
next
  case (Cons ch chs)
  have split: "(\<forall>i name. \<not> tag_at e (ch # chs) i name) \<longleftrightarrow>
      (\<forall>name. \<not> tag_at e (ch # chs) 0 name) \<and> (\<forall>i name. \<not> tag_at e chs i name)"
  proof
    assume a: "\<forall>i name. \<not> tag_at e (ch # chs) i name"
    then have "\<forall>i name. \<not> tag_at e (ch # chs) (Suc i) name" by blast
    with a show "(\<forall>name. \<not> tag_at e (ch # chs) 0 name) \<and> (\<forall>i name. \<not> tag_at e chs i name)"
      by (simp add: tag_at_Suc)
  next
    assume a: "(\<forall>name. \<not> tag_at e (ch # chs) 0 name) \<and> (\<forall>i name. \<not> tag_at e chs i name)"
    show "\<forall>i name. \<not> tag_at e (ch # chs) i name"
    proof (intro allI)
      fix i name
      show "\<not> tag_at e (ch # chs) i name"
        using a by (cases i) (simp_all add: tag_at_Suc)
    qed
  qed
  show ?case
    unfolding split using Cons.IH by (auto simp: tag_at_0)
qed

lemma leftmost_opening_tag:
  "opening_tag_in e cs = Some name \<longleftrightarrow>
     (\<exists>i. tag_at e cs i name \<and> (\<forall>j<i. \<forall>m. \<not> tag_at e cs j m))"
proof (induction cs)
  case Nil
  show ?case by (simp add: tag_at_Nil)
next
  case (Cons ch chs)
  let ?here = "ch = ''<'' \<and> takeWhile (word_char e) chs \<noteq> [] \<and>
         (case dropWhile (word_char e) chs of [] \<Rightarrow> False | x # _ \<Rightarrow> x = '' '' \<or> x = ''>'')"
  show ?case
  proof (cases ?here)
    case True
    then have t0: "tag_at e (ch # chs) 0 (takeWhile (word_char e) chs)"
      by (simp add: tag_at_0)
    have o: "opening_tag_in e (ch # chs) = Some (takeWhile (word_char e) chs)"
      using True by simp
    show ?thesis
    proof
      assume "opening_tag_in e (ch # chs) = Some name"
      with o have "name = takeWhile (word_char e) chs" by simp
      with t0 have "tag_at e (ch # chs) 0 name \<and> (\<forall>j<0. \<forall>m. \<not> tag_at e (ch # chs) j m)"
        by simp
      then show "\<exists>i. tag_at e (ch # chs) i name \<and> (\<forall>j<i. \<forall>m. \<not> tag_at e (ch # chs) j m)" ..
    next
      assume "\<exists>i. tag_at e (ch # chs) i name \<and> (\<forall>j<i. \<forall>m. \<not> tag_at e (ch # chs) j m)"
      then obtain i where i: "tag_at e (ch # chs) i name" "\<forall>j<i. \<forall>m. \<not> tag_at e (ch # chs) j m"
        by blast
      have "i = 0"
      proof (rule ccontr)
        assume "i \<noteq> 0"
        then have "0 < i" by simp
        with i(2) t0 show False by blast
      qed
      with i(1) have "name = takeWhile (word_char e) chs" by (simp add: tag_at_0)
      with o show "opening_tag_in e (ch # chs) = Some name" by simp
    qed
  next
    case False
    then have n0: "\<And>m. \<not> tag_at e (ch # chs) 0 m"
      by (auto simp: tag_at_0)
    have o: "opening_tag_in e (ch # chs) = opening_tag_in e chs"
      using False by auto
    show ?thesis
    proof
      assume "opening_tag_in e (ch # chs) = Some name"
      with o Cons.IH obtain i where i: "tag_at e chs i name" "\<forall>j<i. \<forall>m. \<not> tag_at e chs j m"
        by auto
      have "\<forall>j<Suc i. \<forall>m. \<not> tag_at e (ch # chs) j m"
      proof (intro allI impI)
        fix j m
        assume "j < Suc i"
        then show "\<not> tag_at e (ch # chs) j m"
          using n0 i(2) by (cases j) (simp_all add: tag_at_Suc)
      qed
      with i(1) have "tag_at e (ch # chs) (Suc i) name \<and> (\<forall>j<Suc i. \<forall>m. \<not> tag_at e (ch # chs) j m)"
        by (simp add: tag_at_Suc)
      then show "\<exists>i. tag_at e (ch # chs) i name \<and> (\<forall>j<i. \<forall>m. \<not> tag_at e (ch # chs) j m)" ..
    next
      assume "\<exists>i. tag_at e (ch # chs) i name \<and> (\<forall>j<i. \<forall>m. \<not> tag_at e (ch # chs) j m)"
      then obtain i where i: "tag_at e (ch # chs) i name" "\<forall>j<i. \<forall>m. \<not> tag_at e (ch # chs) j m"
        by blast
      from i(1) n0 obtain k where k: "i = Suc k" by (cases i) auto
      with i(1) have tk: "tag_at e chs k name" by (simp add: tag_at_Suc)
      have "\<forall>j<k. \<forall>m. \<not> tag_at e chs j m"
      proof (intro allI impI)
        fix j m
        assume "j < k"
        then have "Suc j < i" using k by simp
        with i(2) have "\<not> tag_at e (ch # chs) (Suc j) m" by blast
        then show "\<not> tag_at e chs j m" by (simp add: tag_at_Suc)
      qed
      with tk Cons.IH have "opening_tag_in e chs = Some name" by blast
      with o show "opening_tag_in e (ch # chs) = Some name" by simp
    qed
  qed
qed

lemma looks_like_html_iff:
  "looks_like_html e s \<longleftrightarrow>
     (\<exists>i name. tag_at e (chars s) i name \<and> (\<forall>j<i. \<forall>m. \<not> tag_at e (chars s) j m) \<and>
        (ends_with s (''</'' @ concat name @ ''>'') \<or> ends_with s (''</'' @ concat name @ ''>'' @ [LF])))"
proof
  assume "looks_like_html e s"
  then obtain name where o: "opening_tag_in e (chars s) = Some name"
    and c: "closing_tag (concat name) s"
    by (auto simp: looks_like_html_def opening_tag_def split: option.splits)
  from o leftmost_opening_tag [of e "chars s" name] obtain i where
    "tag_at e (chars s) i name" "\<forall>j<i. \<forall>m. \<not> tag_at e (chars s) j m" by blast
  with c show "\<exists>i name. tag_at e (chars s) i name \<and> (\<forall>j<i. \<forall>m. \<not> tag_at e (chars s) j m) \<and>
        (ends_with s (''</'' @ concat name @ ''>'') \<or> ends_with s (''</'' @ concat name @ ''>'' @ [LF]))"
    unfolding closing_tag_def by blast
next
  assume "\<exists>i name. tag_at e (chars s) i name \<and> (\<forall>j<i. \<forall>m. \<not> tag_at e (chars s) j m) \<and>
        (ends_with s (''</'' @ concat name @ ''>'') \<or> ends_with s (''</'' @ concat name @ ''>'' @ [LF]))"
  then obtain i name where t: "tag_at e (chars s) i name" "\<forall>j<i. \<forall>m. \<not> tag_at e (chars s) j m"
    and c: "closing_tag (concat name) s"
    unfolding closing_tag_def by blast
  from t leftmost_opening_tag [of e "chars s" name] have "opening_tag_in e (chars s) = Some name"
    by blast
  with c show "looks_like_html e s"
    by (simp add: looks_like_html_def opening_tag_def)
qed

lemma ends_with_last: "ends_with s suf \<Longrightarrow> suf \<noteq> [] \<Longrightarrow> last s = last suf"
proof -
  assume e: "ends_with s suf" and n: "suf \<noteq> []"
  from e have d: "drop (length s - length suf) s = suf" and l: "length suf \<le> length s"
    by (simp_all add: ends_with_def)
  from n l have "length s - length suf < length s" by (cases suf) auto
  then have "last (drop (length s - length suf) s) = last s" by (rule last_drop)
  with d show ?thesis by simp
qed

lemma sample_word_p: "word_char sample_env ''p''"
  by code_simp

lemma two_tags_chars:
  "chars ''<b>x</b> <p>y</p>''
     = [''<'', ''b'', ''>'', ''x'', ''<'', ''/'', ''b'', ''>'', '' '',
        ''<'', ''p'', ''>'', ''y'', ''<'', ''/'', ''p'', ''>'']"
  by code_simp

lemma two_tags_spec_html_like: "spec_html_like sample_env ''<b>x</b> <p>y</p>''"
proof -
  have t: "tag_at sample_env (chars ''<b>x</b> <p>y</p>'') 9 [''p'']"
    unfolding two_tags_chars tag_at_def
    by (simp add: sample_word_p)
  have e: "ends_with ''<b>x</b> <p>y</p>'' (''</'' @ concat [''p''] @ ''>'')"
    by (simp add: ends_with_def)
  from t e show ?thesis
    unfolding spec_html_like_def by blast
qed

lemma tag_newline_not_spec_html_like: "\<not> spec_html_like sample_env (''<p>x</p>'' @ [LF])"
proof
  assume "spec_html_like sample_env (''<p>x</p>'' @ [LF])"
  then obtain name where "ends_with (''<p>x</p>'' @ [LF]) (''</'' @ concat name @ ''>'')"
    unfolding spec_html_like_def by blast
  then have "last (''<p>x</p>'' @ [LF]) = last (''</'' @ concat name @ ''>'')"
    by (rule ends_with_last) simp
  then show False by simp
qed

lemma html_title_cell:
  "csv_cell sample_env sample_db [''title''] ''Library'' html_entry ''title''
     = Inr ([DQ] @ ''Hello world'' @ [DQ])"
  by code_simp

lemma plain_title_cell:
  "csv_cell sample_env sample_db [''title''] ''Library'' plain_entry ''title''
     = Inr ([DQ] @ ''a < b'' @ [DQ])"
  by code_simp

lemma accent_title_cell:
  "csv_cell sample_env sample_db [''title''] ''Library'' accent_entry ''title''
     = Inr ([DQ] @ ''x'' @ [DQ])"
  by code_simp

lemma two_tags_title_cell:
  "csv_cell sample_env sample_db [''title''] ''Library'' two_tags_entry ''title''
     = Inr ([DQ] @ ''<b>x</b> <p>y</p>'' @ [DQ])"
  by code_simp

lemma tag_newline_title_cell:
  "csv_cell sample_env sample_db [''title''] ''Library'' tag_newline_entry ''title''
     = Inr ([DQ] @ ''x'' @ [LF] @ [DQ])"
  by code_simp

lemma two_tags_converted: "html2text sample_env ''<b>x</b> <p>y</p>'' = Inr ''x y''"
  by code_simp

lemma html_converted: "html2text sample_env ''<p>Hello <b>world</b></p>'' = Inr ''Hello world''"
  by code_simp

lemma plain_converted: "html2text sample_env ''a < b'' = Inr ''a ''"
  by code_simp

lemma html_title_item:
  "resolve sample_db [''title''] ''Library'' html_entry ''title'' = Inr (PStr ''<p>Hello <b>world</b></p>'')"
  "normalize sample_env sample_db [''title''] ''title'' (PStr ''<p>Hello <b>world</b></p>'')
     = Inr (PStr ''<p>Hello <b>world</b></p>'')"
  by code_simp+

lemma plain_title_item:
  "resolve sample_db [''title''] ''Library'' plain_entry ''title'' = Inr (PStr ''a < b'')"
  "normalize sample_env sample_db [''title''] ''title'' (PStr ''a < b'') = Inr (PStr ''a < b'')"
  by code_simp+

text \<open>
  Claim C7. In the CSV writer, an item that reaches line 158 as a string \<open>s\<close> is passed
  through the HTML-to-text converter if and only if the leftmost opening tag token of \<open>s\<close>
  (a \<open><\<close>, a word, then a space or a \<open>>\<close>; no such token stands further to the left) has a
  name for which \<open></name>\<close> ends \<open>s\<close>, or ends it before one final line feed. The cell is
  then the quoted result of the converter, and the quoted \<open>s\<close> otherwise; an item that is
  not a string is never converted. An opening tag further to the right does not count,
  and a closing tag before a final line feed does.
\<close>

theorem html_check_first_tag:
  assumes "resolve d flds lib r f = Inr item"
    and "item \<noteq> PNone"
    and "normalize e d flds f item = Inr v"
  shows "csv_cell e d flds lib r f =
     (case v of
        PStr s \<Rightarrow>
          if (\<exists>i name. tag_at e (chars s) i name \<and> (\<forall>j<i. \<forall>m. \<not> tag_at e (chars s) j m) \<and>
                (ends_with s (''</'' @ concat name @ ''>'') \<or>
                 ends_with s (''</'' @ concat name @ ''>'' @ [LF])))
          then (case html2text e s of Inl x \<Rightarrow> Inl x | Inr t \<Rightarrow> Inr (quote_cell t))
          else Inr (quote_cell s)
      | _ \<Rightarrow> Inr (quote_cell (py_str e v)))"
proof -
  have c: "csv_cell e d flds lib r f =
      (case html_to_text e v of Inl x \<Rightarrow> Inl x | Inr w \<Rightarrow> Inr (quote_cell (py_str e w)))"
    using assms by (cases item) (simp_all add: csv_cell_def)
  show ?thesis
  proof (cases v)
    case (PStr s)
    show ?thesis
      unfolding c html_to_text_def PStr pyval.case looks_like_html_iff [symmetric]
      by (simp split: sum.splits)
  qed (simp_all add: c html_to_text_def)
qed

theorem html_check_first_tag_witness:
  "csv_cell sample_env sample_db [''title''] ''Library'' html_entry ''title''
     = Inr ([DQ] @ ''Hello world'' @ [DQ]) \<and>
   (\<exists>i name. tag_at sample_env (chars ''<p>Hello <b>world</b></p>'') i name \<and>
      (\<forall>j<i. \<forall>m. \<not> tag_at sample_env (chars ''<p>Hello <b>world</b></p>'') j m) \<and>
      (ends_with ''<p>Hello <b>world</b></p>'' (''</'' @ concat name @ ''>'') \<or>
       ends_with ''<p>Hello <b>world</b></p>'' (''</'' @ concat name @ ''>'' @ [LF]))) \<and>
   csv_cell sample_env sample_db [''title''] ''Library'' plain_entry ''title''
     = Inr ([DQ] @ ''a < b'' @ [DQ]) \<and>
   \<not> (\<exists>i name. tag_at sample_env (chars ''a < b'') i name \<and>
      (\<forall>j<i. \<forall>m. \<not> tag_at sample_env (chars ''a < b'') j m) \<and>
      (ends_with ''a < b'' (''</'' @ concat name @ ''>'') \<or>
       ends_with ''a < b'' (''</'' @ concat name @ ''>'' @ [LF]))) \<and>
   csv_cell sample_env sample_db [''title''] ''Library'' accent_entry ''title''
     = Inr ([DQ] @ ''x'' @ [DQ])"
proof -
  let ?H = "\<exists>i name. tag_at sample_env (chars ''<p>Hello <b>world</b></p>'') i name \<and>
      (\<forall>j<i. \<forall>m. \<not> tag_at sample_env (chars ''<p>Hello <b>world</b></p>'') j m) \<and>
      (ends_with ''<p>Hello <b>world</b></p>'' (''</'' @ concat name @ ''>'') \<or>
       ends_with ''<p>Hello <b>world</b></p>'' (''</'' @ concat name @ ''>'' @ [LF]))"
  let ?P = "\<exists>i name. tag_at sample_env (chars ''a < b'') i name \<and>
      (\<forall>j<i. \<forall>m. \<not> tag_at sample_env (chars ''a < b'') j m) \<and>
      (ends_with ''a < b'' (''</'' @ concat name @ ''>'') \<or>
       ends_with ''a < b'' (''</'' @ concat name @ ''>'' @ [LF]))"
  have neh: "PStr ''<p>Hello <b>world</b></p>'' \<noteq> PNone" and nep: "PStr ''a < b'' \<noteq> PNone"
    by simp_all
  have h: "csv_cell sample_env sample_db [''title''] ''Library'' html_entry ''title''
      = (if ?H then Inr (quote_cell ''Hello world'') else Inr (quote_cell ''<p>Hello <b>world</b></p>''))"
    using html_check_first_tag [OF html_title_item(1) neh html_title_item(2)]
    unfolding pyval.case html_converted sum.case .
  have p: "csv_cell sample_env sample_db [''title''] ''Library'' plain_entry ''title''
      = (if ?P then Inr (quote_cell ''a '') else Inr (quote_cell ''a < b''))"
    using html_check_first_tag [OF plain_title_item(1) nep plain_title_item(2)]
    unfolding pyval.case plain_converted sum.case .
  have qh: "quote_cell ''<p>Hello <b>world</b></p>'' \<noteq> [DQ] @ ''Hello world'' @ [DQ]"
    by code_simp
  have qp: "quote_cell ''a '' \<noteq> [DQ] @ ''a < b'' @ [DQ]"
    by code_simp
  have H: ?H
  proof (rule ccontr)
    assume "\<not> ?H"
    then have "csv_cell sample_env sample_db [''title''] ''Library'' html_entry ''title''
      = Inr (quote_cell ''<p>Hello <b>world</b></p>'')" unfolding h by (rule if_not_P)
    with html_title_cell qh show False by simp
  qed
  have P: "\<not> ?P"
  proof
    assume ?P
    then have "csv_cell sample_env sample_db [''title''] ''Library'' plain_entry ''title''
      = Inr (quote_cell ''a '')" unfolding p by (rule if_P)
    with plain_title_cell qp show False by simp
  qed
  show ?thesis
    by (rule conjI [OF html_title_cell conjI [OF H conjI [OF plain_title_cell
        conjI [OF P accent_title_cell]]]])
qed

text \<open>
  The claim as stated fails in both directions. The title \<open><b>x</b> <p>y</p>\<close> contains
  the opening tag \<open><p>\<close> and ends with \<open></p>\<close>, but its leftmost opening tag is \<open><b>\<close>: the
  value is not converted. The title \<open><p>x</p>\<close> followed by a line feed does not end with
  a closing tag, and it is converted.
\<close>

theorem html_check_first_tag_counterexample:
  "spec_html_like sample_env ''<b>x</b> <p>y</p>'' \<and>
   html2text sample_env ''<b>x</b> <p>y</p>'' = Inr ''x y'' \<and>
   csv_cell sample_env sample_db [''title''] ''Library'' two_tags_entry ''title''
     = Inr ([DQ] @ ''<b>x</b> <p>y</p>'' @ [DQ]) \<and>
   \<not> spec_html_like sample_env (''<p>x</p>'' @ [LF]) \<and>
   csv_cell sample_env sample_db [''title''] ''Library'' tag_newline_entry ''title''
     = Inr ([DQ] @ ''x'' @ [LF] @ [DQ])"
  by (rule conjI [OF two_tags_spec_html_like conjI [OF two_tags_converted
        conjI [OF two_tags_title_cell conjI [OF tag_newline_not_spec_html_like tag_newline_title_cell]]]])

subsection \<open>The order of the children of a record element\<close>











subsection \<open>Falsy values\<close>

lemma csv_cells_nth:
  "csv_cells e d flds lib r fs = Inr cells \<Longrightarrow>
     length cells = length fs \<and> (\<forall>i<length fs. csv_cell e d flds lib r (fs ! i) = Inr (cells ! i))"
proof (induction fs arbitrary: cells)
  case Nil
  then show ?case by simp
next
  case (Cons f fs)
  from Cons.prems obtain c cs where
    c: "csv_cell e d flds lib r f = Inr c" and cs: "csv_cells e d flds lib r fs = Inr cs"
    and cells: "cells = c # cs"
    by (auto split: sum.splits)
  from Cons.IH [OF cs] c cells show ?case
    by (auto simp: nth_Cons split: nat.splits)
qed

lemma not_html_empty: "\<not> looks_like_html e []"
  by (simp add: looks_like_html_def opening_tag_def)

lemma falsy_cell:
  assumes "r f = Some v" and "\<not> is_custom f" and "f \<noteq> ''library_name''" and "f \<noteq> ''title_sort''"
    and "v = PNone \<or>
         (v = PStr [] \<and> f \<noteq> ''authors'' \<and> fm_datatype (fm d flds f) \<noteq> Some ''datetime'') \<or>
         (v = PList [] \<and> (f = ''tags'' \<or> f = ''formats''))"
  shows "csv_cell e d flds lib r f = Inr [DQ, DQ]"
proof -
  have res: "resolve d flds lib r f = Inr v"
    using assms(1-4) by (simp add: resolve_def lookup_def)
  from assms(5) show ?thesis
    by (auto simp: csv_cell_def res normalize_def html_to_text_def not_html_empty quote_empty)
qed

lemma falsy_no_element:
  assumes "r f = Some v" and "\<not> truthy v" and "f \<in> set omitted_when_falsy"
    and "xml_children e d flds lib r = Inr cs"
  shows "children_named f cs = []"
proof -
  from assms(3) have "f = [] \<or> hd f \<noteq> CHR ''_''"
    by (auto simp: omitted_when_falsy_def scalar_fields_def)
  with assms(4) have "xml_part e d flds lib r f = Inr (children_named f cs)"
    by (rule children_of_part)
  with assms(1-3) show ?thesis
    by (auto simp: omitted_when_falsy_def scalar_fields_def xml_part_def xml_scalar_def
        xml_tags_def xml_text_field_def xml_series_def xml_cover_def xml_formats_def lookup_def
        split: if_splits)
qed

lemma missing_cell:
  assumes "r f = None" and "\<not> is_custom f" and "f \<noteq> ''library_name''" and "f \<noteq> ''title_sort''"
  shows "csv_cell e d flds lib r f = Inl (KeyError f)"
  using assms by (simp add: csv_cell_def resolve_def lookup_def)

lemma csv_cells_error:
  "f \<in> set fs \<Longrightarrow> csv_cell e d flds lib r f = Inl x \<Longrightarrow> \<exists>y. csv_cells e d flds lib r fs = Inl y"
  by (induction fs) (auto split: sum.splits)

lemma missing_no_record:
  assumes "r f = None" and "f \<in> set flds" and "f \<in> set omitted_when_falsy"
  shows "\<exists>x. xml_children e d flds lib r = Inl x"
proof (cases "xml_children e d flds lib r")
  case (Inl x)
  then show ?thesis by simp
next
  case (Inr cs)
  from assms(3) have "f = [] \<or> hd f \<noteq> CHR ''_''"
    by (auto simp: omitted_when_falsy_def scalar_fields_def)
  with Inr have "xml_part e d flds lib r f = Inr (children_named f cs)"
    by (rule children_of_part)
  with assms have False
    by (auto simp: omitted_when_falsy_def scalar_fields_def xml_part_def xml_scalar_def
        xml_tags_def xml_text_field_def xml_series_def xml_cover_def xml_formats_def lookup_def
        split: if_splits)
  then show ?thesis ..
qed

text \<open>
  Claim C2, as the code has it. Let the entry hold a falsy value under a field name.
  In XML, the fixed scalar fields and \<open>tags\<close>, \<open>comments\<close>, \<open>series\<close>, \<open>languages\<close>,
  \<open>cover\<close>, \<open>formats\<close> then have no element in the record. In CSV, the cell at the
  column of the field is the empty quoted cell when the value is \<open>None\<close>, when it is
  the empty string (for a field that is neither \<open>authors\<close> nor of datatype
  \<open>datetime\<close>), and when it is the empty list of \<open>tags\<close> or \<open>formats\<close>. When one of the
  fields that XML omits is in the field list and the entry has no key for it, both
  writers raise.
\<close>

theorem falsy_fields:
  "(\<forall>v cs. r f = Some v \<and> \<not> truthy v \<and> f \<in> set omitted_when_falsy \<and>
       xml_children e d flds lib r = Inr cs \<longrightarrow>
       children_named f cs = []) \<and>
   (\<forall>v cells i. r f = Some v \<and> \<not> truthy v \<and>
       csv_cells e d flds lib r flds = Inr cells \<and> i < length flds \<and> flds ! i = f \<and>
       \<not> is_custom f \<and> f \<noteq> ''library_name'' \<and> f \<noteq> ''title_sort'' \<and>
       (v = PNone \<or>
        (v = PStr [] \<and> f \<noteq> ''authors'' \<and> fm_datatype (fm d flds f) \<noteq> Some ''datetime'') \<or>
        (v = PList [] \<and> (f = ''tags'' \<or> f = ''formats''))) \<longrightarrow>
       length cells = length flds \<and> cells ! i = [DQ, DQ]) \<and>
   (r f = None \<and> f \<in> set flds \<and> f \<in> set omitted_when_falsy \<longrightarrow>
       (\<exists>x. xml_children e d flds lib r = Inl x) \<and>
       (\<exists>x. csv_cells e d flds lib r flds = Inl x))"
proof (intro conjI)
  show "\<forall>v cs. r f = Some v \<and> \<not> truthy v \<and> f \<in> set omitted_when_falsy \<and>
       xml_children e d flds lib r = Inr cs \<longrightarrow>
       children_named f cs = []"
    using falsy_no_element [where r = r and f = f] by blast
next
  show "\<forall>v cells i. r f = Some v \<and> \<not> truthy v \<and>
       csv_cells e d flds lib r flds = Inr cells \<and> i < length flds \<and> flds ! i = f \<and>
       \<not> is_custom f \<and> f \<noteq> ''library_name'' \<and> f \<noteq> ''title_sort'' \<and>
       (v = PNone \<or>
        (v = PStr [] \<and> f \<noteq> ''authors'' \<and> fm_datatype (fm d flds f) \<noteq> Some ''datetime'') \<or>
        (v = PList [] \<and> (f = ''tags'' \<or> f = ''formats''))) \<longrightarrow>
       length cells = length flds \<and> cells ! i = [DQ, DQ]"
  proof (intro allI impI)
    fix v cells i
    assume a: "r f = Some v \<and> \<not> truthy v \<and>
       csv_cells e d flds lib r flds = Inr cells \<and> i < length flds \<and> flds ! i = f \<and>
       \<not> is_custom f \<and> f \<noteq> ''library_name'' \<and> f \<noteq> ''title_sort'' \<and>
       (v = PNone \<or>
        (v = PStr [] \<and> f \<noteq> ''authors'' \<and> fm_datatype (fm d flds f) \<noteq> Some ''datetime'') \<or>
        (v = PList [] \<and> (f = ''tags'' \<or> f = ''formats'')))"
    then have n: "length cells = length flds" and c: "csv_cell e d flds lib r f = Inr (cells ! i)"
      using csv_cells_nth [of e d flds lib r flds cells] by auto
    from a have "csv_cell e d flds lib r f = Inr [DQ, DQ]"
      by (intro falsy_cell [where r = r and f = f and v = v]) simp_all
    with c have "cells ! i = [DQ, DQ]" by simp
    with n show "length cells = length flds \<and> cells ! i = [DQ, DQ]" by simp
  qed
next
  show "r f = None \<and> f \<in> set flds \<and> f \<in> set omitted_when_falsy \<longrightarrow>
       (\<exists>x. xml_children e d flds lib r = Inl x) \<and>
       (\<exists>x. csv_cells e d flds lib r flds = Inl x)"
  proof (intro impI conjI)
    assume a: "r f = None \<and> f \<in> set flds \<and> f \<in> set omitted_when_falsy"
    then show "\<exists>x. xml_children e d flds lib r = Inl x"
      using missing_no_record [where r = r and f = f] by blast
    from a have "\<not> is_custom f" "f \<noteq> ''library_name''" "f \<noteq> ''title_sort''"
      by (auto simp: omitted_when_falsy_def scalar_fields_def is_custom_def)
    with a have "csv_cell e d flds lib r f = Inl (KeyError f)"
      using missing_cell [where r = r and f = f] by blast
    with a show "\<exists>x. csv_cells e d flds lib r flds = Inl x"
      using csv_cells_error [where f = f and fs = flds] by blast
  qed
qed

lemma untitled_tags_cells:
  "csv_cells sample_env sample_db [''tags''] ''Library'' untitled_entry [''tags'']
     = Inl (KeyError ''tags'')"
  by code_simp

lemma untitled_tags_children:
  "xml_children sample_env sample_db [''tags''] ''Library'' untitled_entry = Inl (KeyError ''tags'')"
  by code_simp

lemma sample_tags_cells:
  "csv_cells sample_env sample_db [''title'', ''tags''] ''Library'' sample_entry [''title'', ''tags'']
     = Inr [[DQ] @ ''Title'' @ [DQ], [DQ, DQ]]"
  by code_simp

lemma sample_tags_children:
  "xml_children sample_env sample_db [''title'', ''tags''] ''Library'' sample_entry
     = Inr [Elem ''title'' [(''sort'', ''Title'')] ''Title'' []]"
  by code_simp

theorem falsy_fields_witness:
  "csv_cells sample_env sample_db [''title'', ''tags''] ''Library'' sample_entry [''title'', ''tags'']
     = Inr [[DQ] @ ''Title'' @ [DQ], [DQ, DQ]] \<and>
   [[DQ] @ ''Title'' @ [DQ], [DQ, DQ]] ! 1 = [DQ, DQ] \<and>
   xml_children sample_env sample_db [''title'', ''tags''] ''Library'' sample_entry
     = Inr [Elem ''title'' [(''sort'', ''Title'')] ''Title'' []] \<and>
   children_named ''tags'' [Elem ''title'' [(''sort'', ''Title'')] ''Title'' []] = [] \<and>
   untitled_entry ''tags'' = None \<and>
   xml_children sample_env sample_db [''tags''] ''Library'' untitled_entry = Inl (KeyError ''tags'') \<and>
   csv_cells sample_env sample_db [''tags''] ''Library'' untitled_entry [''tags'']
     = Inl (KeyError ''tags'')"
proof -
  have 1: "sample_entry ''tags'' = Some (PList [])" by (simp add: sample_entry_def)
  have 2: "\<not> truthy (PList [])" by simp
  have 3: "''tags'' \<in> set omitted_when_falsy"
    by (simp add: omitted_when_falsy_def)
  note th = falsy_fields [where r = sample_entry and f = "''tags''"
      and e = sample_env and d = sample_db and flds = "[''title'', ''tags'']" and lib = "''Library''"]
  from th 1 2 3 sample_tags_children
  have a: "children_named ''tags'' [Elem ''title'' [(''sort'', ''Title'')] ''Title'' []] = []"
    by blast
  have 4: "\<not> is_custom ''tags''" by (simp add: is_custom_def)
  have 5: "(1::nat) < length [''title'', ''tags''] \<and> [''title'', ''tags''] ! 1 = ''tags''
      \<and> ''tags'' \<noteq> ''library_name'' \<and> ''tags'' \<noteq> ''title_sort''"
    by simp
  from th 1 2 sample_tags_cells 4 5
  have b: "[[DQ] @ ''Title'' @ [DQ], [DQ, DQ]] ! 1 = [DQ, DQ]"
    by blast
  have 6: "untitled_entry ''tags'' = None" by (simp add: untitled_entry_def)
  from a b sample_tags_cells sample_tags_children 6 untitled_tags_children untitled_tags_cells
  show ?thesis by blast
qed

lemma sample_empty_title_children:
  "xml_children sample_env sample_db [''title''] ''Library'' (sample_entry(''title'' \<mapsto> PStr []))
     = Inr [Elem ''title'' [(''sort'', ''Title'')] [] []]"
  by code_simp

lemma sample_zero_rating_cell:
  "csv_cell sample_env sample_db [''rating''] ''Library'' (sample_entry(''rating'' \<mapsto> PInt 0)) ''rating''
     = Inr [DQ, CHR ''0'', DQ]"
  by code_simp

text \<open>
  The claim as stated fails: an empty title is falsy and gets an (empty) \<open>title\<close>
  element, and the falsy rating 0 gets the cell \<open>"0"\<close>.
\<close>

theorem falsy_fields_counterexample:
  "\<not> truthy (PStr []) \<and>
   xml_children sample_env sample_db [''title''] ''Library'' (sample_entry(''title'' \<mapsto> PStr []))
     = Inr [Elem ''title'' [(''sort'', ''Title'')] [] []] \<and>
   \<not> truthy (PInt 0) \<and>
   csv_cell sample_env sample_db [''rating''] ''Library'' (sample_entry(''rating'' \<mapsto> PInt 0)) ''rating''
     = Inr [DQ, CHR ''0'', DQ]"
  using sample_empty_title_children sample_zero_rating_cell by simp

subsection \<open>The rows of the CSV output\<close>

lemma lines_inside:
  "spec_lines True cur (double_quotes s @ DQ # rest)
     = spec_lines False (cur @ double_quotes s @ [DQ]) rest"
proof (induction s arbitrary: cur)
  case Nil
  show ?case by (simp add: double_quotes_def)
next
  case (Cons c s)
  have dq: "double_quotes (c # s) = (if c = DQ then [DQ, DQ] else [c]) @ double_quotes s"
    by (simp add: double_quotes_def)
  show ?case
  proof (cases "c = DQ")
    case True
    with Cons.IH [of "cur @ [DQ, DQ]"] dq show ?thesis by simp
  next
    case False
    with Cons.IH [of "cur @ [c]"] dq show ?thesis by simp
  qed
qed

lemma lines_cell:
  "spec_lines False cur (quote_cell v @ rest) = spec_lines False (cur @ quote_cell v) rest"
  using lines_inside [of "cur @ [DQ]" v rest] by (simp add: quote_cell_eq)

lemma lines_cells:
  "spec_lines False cur (str_join '','' (map quote_cell vs) @ rest)
     = spec_lines False (cur @ str_join '','' (map quote_cell vs)) rest"
proof (induction vs arbitrary: cur)
  case Nil
  show ?case by simp
next
  case (Cons v vs)
  show ?case
  proof (cases vs)
    case Nil
    then show ?thesis by (simp add: lines_cell)
  next
    case (Cons w ws)
    have "spec_lines False cur (str_join '','' (map quote_cell (v # vs)) @ rest)
          = spec_lines False cur (quote_cell v @ CHR '','' # str_join '','' (map quote_cell vs) @ rest)"
      using Cons by simp
    also have "\<dots> = spec_lines False (cur @ quote_cell v @ '','') (str_join '','' (map quote_cell vs) @ rest)"
      by (simp add: lines_cell)
    also have "\<dots> = spec_lines False ((cur @ quote_cell v @ '','') @ str_join '','' (map quote_cell vs)) rest"
      by (rule Cons.IH)
    finally show ?thesis using Cons by simp
  qed
qed

lemma lines_row:
  "spec_lines False [] (str_join '','' (map quote_cell vs) @ LF # rest)
     = str_join '','' (map quote_cell vs) # spec_lines False [] rest"
  using lines_cells [of "[]" vs "LF # rest"] by simp

lemma lines_rows:
  "spec_lines False [] (concat (map (\<lambda>vs. row_text (map quote_cell vs)) rows))
     = map (\<lambda>vs. str_join '','' (map quote_cell vs)) rows"
  by (induction rows) (simp_all add: row_text_def lines_row)

lemma parse_line_row: "spec_parse_line (str_join '','' (map quote_cell vs)) = vs"
proof (cases vs)
  case Nil
  then show ?thesis by (simp add: spec_parse_line_def)
next
  case (Cons v ws)
  have "str_join '','' (map quote_cell (v # ws)) \<noteq> []"
    by (cases ws) (simp_all add: quote_cell_eq)
  moreover have "spec_parse_row (str_join '','' (map quote_cell (v # ws))) = v # ws"
    by (simp only: spec_parse_row_def split_row) (simp add: strip_cell undouble_cell map_idI)
  ultimately show ?thesis using Cons by (simp add: spec_parse_line_def)
qed

lemma read_rows:
  "spec_read_csv (concat (map (\<lambda>vs. row_text (map quote_cell vs)) rows)) = rows"
  by (simp add: spec_read_csv_def lines_rows parse_line_row map_idI)

lemma csv_entries_rows:
  "csv_entries e d flds lib data out = (Inr (), out') \<Longrightarrow>
     \<exists>rows. out' = out @ concat (map (\<lambda>vs. row_text (map quote_cell vs)) rows) \<and>
        length rows = length data \<and> (\<forall>vs \<in> set rows. length vs = length flds)"
proof (induction data arbitrary: out)
  case Nil
  then have "out' = out @ concat (map (\<lambda>vs. row_text (map quote_cell vs)) [])" by simp
  then show ?case by (intro exI [of _ "[]"]) simp
next
  case (Cons r rs)
  from Cons.prems obtain cells where
    cells: "csv_cells e d flds lib r flds = Inr cells"
    and rest: "csv_entries e d flds lib rs (out @ str_join '','' cells @ [LF]) = (Inr (), out')"
    by (auto split: sum.splits)
  from csv_cells_quoted [OF cells] obtain vs where
    vs: "cells = map quote_cell vs" "length vs = length flds" by blast
  from Cons.IH [OF rest] obtain rows where
    rows: "out' = (out @ str_join '','' cells @ [LF]) @ concat (map (\<lambda>vs. row_text (map quote_cell vs)) rows)"
      "length rows = length rs" "\<forall>vs \<in> set rows. length vs = length flds"
    by blast
  from vs rows have "out' = out @ concat (map (\<lambda>vs. row_text (map quote_cell vs)) (vs # rows)) \<and>
        length (vs # rows) = length (r # rs) \<and> (\<forall>ws \<in> set (vs # rows). length ws = length flds)"
    by (simp add: row_text_def)
  then show ?case by blast
qed

lemma add_ondevice_length:
  "add_ondevice e d data = Inr data' \<Longrightarrow> length data' = length data"
  by (induction data arbitrary: data') (auto split: sum.splits option.splits)

lemma with_ondevice_length:
  "with_ondevice e ops d data flds = Inr data' \<Longrightarrow> length data' = length data"
  by (auto simp: with_ondevice_def add_ondevice_length split: if_splits)

lemma line_breaks_append: "line_breaks (a @ b) = line_breaks a + line_breaks b"
  by (simp add: line_breaks_def)

lemma line_breaks_LF: "line_breaks [LF] = 1"
  by (simp add: line_breaks_def)

lemma line_breaks_double: "filter (\<lambda>c. c = LF) (double_quotes s) = filter (\<lambda>c. c = LF) s"
  by (induction s) (simp_all add: double_quotes_def)

lemma line_breaks_quote: "line_breaks (quote_cell v) = line_breaks v"
  by (simp add: quote_cell_eq line_breaks_def line_breaks_double)

lemma line_breaks_join: "line_breaks (str_join '','' xs) = sum_list (map line_breaks xs)"
proof (induction xs)
  case Nil
  show ?case by (simp add: line_breaks_def)
next
  case (Cons x xs)
  show ?case
  proof (cases xs)
    case Nil
    then show ?thesis by (simp add: line_breaks_def)
  next
    case (Cons y ys)
    have "line_breaks (str_join '','' (x # xs)) = line_breaks (x @ '','' @ str_join '','' xs)"
      using Cons by simp
    also have "\<dots> = line_breaks x + line_breaks (str_join '','' xs)"
      by (simp add: line_breaks_append) (simp add: line_breaks_def)
    finally show ?thesis using Cons.IH by simp
  qed
qed

lemma line_breaks_row:
  "line_breaks (str_join '','' (map quote_cell vs) @ [LF]) = 1 + sum_list (map line_breaks vs)"
  by (simp add: line_breaks_append line_breaks_join line_breaks_LF o_def line_breaks_quote)

lemma line_breaks_rows:
  "line_breaks (concat (map (\<lambda>vs. str_join '','' (map quote_cell vs) @ [LF]) rows))
     = length rows + sum_list (map (\<lambda>vs. sum_list (map line_breaks vs)) rows)"
proof (induction rows)
  case Nil
  show ?case by (simp add: line_breaks_def)
next
  case (Cons vs rows)
  have "line_breaks (concat (map (\<lambda>vs. str_join '','' (map quote_cell vs) @ [LF]) (vs # rows)))
      = line_breaks (str_join '','' (map quote_cell vs) @ [LF])
        + line_breaks (concat (map (\<lambda>vs. str_join '','' (map quote_cell vs) @ [LF]) rows))"
    by (simp only: list.map concat.simps line_breaks_append)
  then show ?case
    by (simp only: line_breaks_row Cons.IH) simp
qed

lemma line_breaks_BOM: "line_breaks BOM = 0"
  by (simp add: line_breaks_def BOM_def)

text \<open>
  Claim C4, as the code has it. After a run on a \<open>csv\<close> destination that raises no
  exception, the file holds the byte order mark, the field names joined by commas and
  a line feed, and then one row per entry. Every row is as many cells as there are
  fields, joined by commas and ended by a line feed, and every cell is a value with its
  double quotes doubled, wrapped in double quotes; a reader of CSV that does not end a
  row at a line feed between quotes reads these rows back. The line feeds of the file
  are one for the header and one for each entry, and those inside the field names and
  inside the values of the cells.
\<close>

theorem csv_rows_and_cells:
  assumes "rpartition_tail CHR ''.'' p = ''csv''"
    and "run e p ops d data flds files = (Inr (), files')"
  shows "\<exists>rows.
           files' p = Some (BOM @ str_join '','' flds @ [LF] @
                        concat (map (\<lambda>vs. str_join '','' (map quote_cell vs) @ [LF]) rows)) \<and>
           length rows = length data \<and>
           (\<forall>vs \<in> set rows. length vs = length flds) \<and>
           spec_read_csv (concat (map (\<lambda>vs. str_join '','' (map quote_cell vs) @ [LF]) rows)) = rows \<and>
           line_breaks (BOM @ str_join '','' flds @ [LF] @
                        concat (map (\<lambda>vs. str_join '','' (map quote_cell vs) @ [LF]) rows))
             = length data + 1 + sum_list (map line_breaks flds)
               + sum_list (map (\<lambda>vs. sum_list (map line_breaks vs)) rows)"
proof -
  from assms obtain data' where
    w: "with_ondevice e ops d data flds = Inr data'"
    and r: "run_csv e d flds (current_library e ops) data' p files = (Inr (), files')"
    by (auto simp: run_def Let_def split: sum.splits)
  from r obtain out where
    o: "csv_entries e d flds (current_library e ops) data' (BOM @ str_join '','' flds @ [LF]) = (Inr (), out)"
    and f: "files' = files(p \<mapsto> out)"
    by (auto simp: run_csv_def split: prod.splits)
  from csv_entries_rows [OF o] obtain rows where
    rows: "out = (BOM @ str_join '','' flds @ [LF]) @ concat (map (\<lambda>vs. row_text (map quote_cell vs)) rows)"
      "length rows = length data'" "\<forall>vs \<in> set rows. length vs = length flds"
    by blast
  let ?body = "concat (map (\<lambda>vs. str_join '','' (map quote_cell vs) @ [LF]) rows)"
  have body: "concat (map (\<lambda>vs. row_text (map quote_cell vs)) rows) = ?body"
    by (simp add: row_text_def)
  have 1: "files' p = Some (BOM @ str_join '','' flds @ [LF] @ ?body)"
    using f rows(1) body by simp
  have 2: "length rows = length data"
    using rows(2) with_ondevice_length [OF w] by simp
  have 4: "spec_read_csv ?body = rows"
    using read_rows [of rows] body by simp
  have "line_breaks (BOM @ str_join '','' flds @ [LF] @ ?body)
      = line_breaks (str_join '','' flds) + line_breaks [LF] + line_breaks ?body"
    by (simp only: line_breaks_append line_breaks_BOM)
  also have "\<dots> = sum_list (map line_breaks flds) + 1
      + (length rows + sum_list (map (\<lambda>vs. sum_list (map line_breaks vs)) rows))"
    by (simp only: line_breaks_join line_breaks_rows line_breaks_LF)
  finally have 5: "line_breaks (BOM @ str_join '','' flds @ [LF] @ ?body)
      = length data + 1 + sum_list (map line_breaks flds)
        + sum_list (map (\<lambda>vs. sum_list (map line_breaks vs)) rows)"
    using 2 by simp
  from 1 2 rows(3) 4 5 show ?thesis by blast
qed

lemma two_line_cells:
  "csv_cells sample_env sample_db [''title''] ''Library'' two_line_entry [''title'']
     = Inr [[DQ] @ ''a'' @ [LF] @ ''b'' @ [DQ]]"
  by code_simp

lemma sample_two_line_run:
  "run sample_env ''out.csv'' sample_opts sample_db [two_line_entry] [''title''] Map.empty
     = (Inr (), [''out.csv'' \<mapsto> BOM @ ''title'' @ [LF] @ [DQ] @ ''a'' @ [LF] @ ''b'' @ [DQ, LF]])"
  by (simp add: run_def sample_no_device sample_library rpartition_tail_def run_csv_def
      two_line_cells del: csv_cells.simps)

lemma two_line_read:
  "spec_read_csv ([DQ] @ ''a'' @ [LF] @ ''b'' @ [DQ, LF]) = [[''a'' @ [LF] @ ''b'']]"
  by code_simp

theorem csv_rows_and_cells_witness:
  "run sample_env ''out.csv'' sample_opts sample_db [two_line_entry] [''title''] Map.empty
     = (Inr (), [''out.csv'' \<mapsto> BOM @ ''title'' @ [LF] @ [DQ] @ ''a'' @ [LF] @ ''b'' @ [DQ, LF]]) \<and>
   spec_read_csv ([DQ] @ ''a'' @ [LF] @ ''b'' @ [DQ, LF]) = [[''a'' @ [LF] @ ''b'']] \<and>
   length [[''a'' @ [LF] @ ''b'']] = length [two_line_entry] \<and>
   list_all (\<lambda>vs. length vs = length [''title'']) [[''a'' @ [LF] @ ''b'']] \<and>
   line_breaks (BOM @ ''title'' @ [LF] @ [DQ] @ ''a'' @ [LF] @ ''b'' @ [DQ, LF])
     = length [two_line_entry] + 1 + 0 + 1"
proof -
  have ext: "rpartition_tail CHR ''.'' ''out.csv'' = ''csv''"
    by (simp add: rpartition_tail_def)
  from csv_rows_and_cells [OF ext sample_two_line_run] obtain rows where
    b: "[''out.csv'' \<mapsto> BOM @ ''title'' @ [LF] @ [DQ] @ ''a'' @ [LF] @ ''b'' @ [DQ, LF]] ''out.csv''
          = Some (BOM @ str_join '','' [''title''] @ [LF] @
              concat (map (\<lambda>vs. str_join '','' (map quote_cell vs) @ [LF]) rows))"
    and n: "length rows = length [two_line_entry]"
    and c: "\<forall>vs \<in> set rows. length vs = length [''title'']"
    and rd: "spec_read_csv (concat (map (\<lambda>vs. str_join '','' (map quote_cell vs) @ [LF]) rows)) = rows"
    and lb: "line_breaks (BOM @ str_join '','' [''title''] @ [LF] @
              concat (map (\<lambda>vs. str_join '','' (map quote_cell vs) @ [LF]) rows))
          = length [two_line_entry] + 1 + sum_list (map line_breaks [''title''])
            + sum_list (map (\<lambda>vs. sum_list (map line_breaks vs)) rows)"
    by blast
  from b have body: "concat (map (\<lambda>vs. str_join '','' (map quote_cell vs) @ [LF]) rows)
      = [DQ] @ ''a'' @ [LF] @ ''b'' @ [DQ, LF]"
    by simp
  from rd have rows: "rows = [[''a'' @ [LF] @ ''b'']]"
    unfolding body two_line_read by simp
  have t: "sum_list (map line_breaks [''title'']) = 0"
    by (simp add: line_breaks_def)
  have v: "sum_list (map (\<lambda>vs. sum_list (map line_breaks vs)) [[''a'' @ [LF] @ ''b'']]) = 1"
    by (simp add: line_breaks_def)
  note lb' = lb [unfolded body]
  from lb' have "line_breaks (BOM @ ''title'' @ [LF] @ [DQ] @ ''a'' @ [LF] @ ''b'' @ [DQ, LF])
      = length [two_line_entry] + 1 + 0 + 1"
    unfolding rows t v by simp
  with n c rows sample_two_line_run two_line_read show ?thesis
    by (simp add: list_all_iff)
qed

text \<open>
  The claim as stated fails on an entry whose title has a line break: the file of one
  entry has three newline-terminated lines, not two.
\<close>

theorem csv_rows_and_cells_counterexample:
  "run sample_env ''out.csv'' sample_opts sample_db [two_line_entry] [''title''] Map.empty
     = (Inr (), [''out.csv'' \<mapsto> BOM @ ''title'' @ [LF] @ [DQ] @ ''a'' @ [LF] @ ''b'' @ [DQ, LF]]) \<and>
   count_list (BOM @ ''title'' @ [LF] @ [DQ] @ ''a'' @ [LF] @ ''b'' @ [DQ, LF]) LF = 3 \<and>
   length [two_line_entry] + 1 = 2"
  using sample_two_line_run by (simp add: BOM_def)

end
